theory Spec2Isabelle
  imports Complex_Main "HOL-Library.Word" "HOL-Library.Log_Nat"
begin

text \<open>
  The character-art generator of \<^verbatim>\<open>src/components/BinaryArtGenerator.tsx\<close>: the function
  \<^verbatim>\<open>generateBinaryArt\<close> with the callback it hands to \<^verbatim>\<open>setTimeout\<close>, which turns the pixels of
  an image into a grid of styled characters. The upload handler, the download handler and
  the markup of the component are not part of it.
\<close>

section \<open>JavaScript numbers\<close>

text \<open>
  The generator computes with JavaScript numbers, that is IEEE 754 binary64
  values under round-to-nearest, ties-to-even. A finite number is modelled by the rational it
  denotes; every arithmetic operation of the source is the exact operation followed by the
  rounding \<open>fl\<close> to 53 significant bits. The exponent is not bounded: the values of this
  program (bytes, weights, a slider position, image dimensions below \<open>2 ^ 32\<close>) stay far
  from the overflow and subnormal ranges, where \<open>fl\<close> would differ from binary64. The two
  zeros are one value; no operation of the program tells them apart. The non-finite values
  appear only through the division by \<open>naturalWidth\<close> and are a datatype of their own below.
\<close>

definition rne :: "rat \<Rightarrow> int" where
  \<comment> \<open>nearest integer, a tie going to the even neighbour\<close>
  "rne m = (let f = \<lfloor>m\<rfloor>; r = m - of_int f
            in if r < 1 / 2 then f else if 1 / 2 < r then f + 1
               else if even f then f else f + 1)"

definition expo :: "rat \<Rightarrow> int" where
  \<comment> \<open>the binary exponent \<open>e\<close> of a non-zero number: \<open>2 powi e \<le> \<bar>q\<bar> < 2 powi (e + 1)\<close>\<close>
  "expo q = (if 1 \<le> \<bar>q\<bar> then bitlen \<lfloor>\<bar>q\<bar>\<rfloor> - 1
             else - bitlen (\<lceil>1 / \<bar>q\<bar>\<rceil> - 1))"

definition fl :: "rat \<Rightarrow> rat" where
  \<comment> \<open>rounding to the nearest number with a 53-bit significand\<close>
  "fl q = (if q = 0 then 0
           else let u = 2 powi (expo q - 52) in of_int (rne (q / u)) * u)"

definition fadd :: "rat \<Rightarrow> rat \<Rightarrow> rat" where
  "fadd a b = fl (a + b)"

definition fsub :: "rat \<Rightarrow> rat \<Rightarrow> rat" where
  "fsub a b = fl (a - b)"

definition fmul :: "rat \<Rightarrow> rat \<Rightarrow> rat" where
  "fmul a b = fl (a * b)"

definition fdiv :: "rat \<Rightarrow> rat \<Rightarrow> rat" where
  \<comment> \<open>used with a non-zero divisor only; the division by \<open>naturalWidth\<close> is \<open>aspectRatio\<close>\<close>
  "fdiv a b = fl (a / b)"

definition Math_round :: "rat \<Rightarrow> int" where
  \<comment> \<open>\<^verbatim>\<open>Math.round\<close>: nearest integer, a tie going up\<close>
  "Math_round x = \<lfloor>x + 1 / 2\<rfloor>"

definition Math_floor :: "rat \<Rightarrow> int" where
  "Math_floor x = \<lfloor>x\<rfloor>"

datatype 'a number = Finite 'a | PosInfinity | NegInfinity | NotANumber

section \<open>Strings\<close>

text \<open>
  A JavaScript string is a sequence of UTF-16 code units; \<^verbatim>\<open>split('')\<close> cuts it into its
  code units and \<^verbatim>\<open>length\<close> counts them. \<open>js\<close> embeds an ASCII literal of the source.
\<close>

type_synonym jsstring = "16 word list"

definition js :: "string \<Rightarrow> jsstring" where
  "js s = map (\<lambda>c. of_nat (of_char c)) s"

definition isWhiteSpace :: "16 word \<Rightarrow> bool" where
  \<comment> \<open>the code units \<^verbatim>\<open>String.prototype.trim\<close> strips: WhiteSpace and LineTerminator of ECMAScript\<close>
  "isWhiteSpace c \<longleftrightarrow>
     c \<in> {0x0009, 0x000A, 0x000B, 0x000C, 0x000D, 0x0020, 0x00A0, 0x1680,
          0x2000, 0x2001, 0x2002, 0x2003, 0x2004, 0x2005, 0x2006, 0x2007, 0x2008, 0x2009, 0x200A,
          0x2028, 0x2029, 0x202F, 0x205F, 0x3000, 0xFEFF}"

definition trim :: "jsstring \<Rightarrow> jsstring" where
  "trim s = rev (dropWhile isWhiteSpace (rev (dropWhile isWhiteSpace s)))"

fun showNat :: "nat \<Rightarrow> jsstring" where
  "showNat n = (if n < 10 then [of_nat (48 + n)]
                else showNat (n div 10) @ [of_nat (48 + n mod 10)])"

declare showNat.simps [simp del]

definition showInt :: "int \<Rightarrow> jsstring" where
  \<comment> \<open>an integer-valued number interpolated into a template literal\<close>
  "showInt n = (if n < 0 then js ''-'' @ showNat (nat (- n)) else showNat (nat n))"

definition toFixed3 :: "rat \<Rightarrow> jsstring" where
  \<comment> \<open>\<^verbatim>\<open>x.toFixed(3)\<close> for \<open>\<bar>x\<bar> < 10 ^ 21\<close>: the integer \<open>n\<close> with \<open>n / 1000\<close> nearest to
      \<open>\<bar>x\<bar>\<close> (the larger of two), its digits padded to four, a point before the last three\<close>
  "toFixed3 x =
     (let n = nat \<lfloor>\<bar>x\<bar> * 1000 + 1 / 2\<rfloor>;
          m = showNat n;
          m' = replicate (4 - length m) 0x30 @ m;
          k = length m' - 3
      in (if x < 0 then js ''-'' else []) @ take k m' @ js ''.'' @ drop k m')"

section \<open>Constants\<close>

definition MIN_WEIGHT :: int where
  "MIN_WEIGHT = 300"

definition MAX_WEIGHT :: int where
  "MAX_WEIGHT = 700"

definition WEIGHT_RANGE :: int where
  "WEIGHT_RANGE = MAX_WEIGHT - MIN_WEIGHT"

definition NUM_CHAR_LEVELS :: int where
  "NUM_CHAR_LEVELS = 14"

definition CHAR_LEVEL_SIZE :: rat where
  "CHAR_LEVEL_SIZE = fdiv 256 (of_int NUM_CHAR_LEVELS)"

section \<open>The glyph of one pixel\<close>

text \<open>The body of the inner loop of \<^verbatim>\<open>generateBinaryArt\<close>, one definition for each \<^verbatim>\<open>const\<close>.\<close>

definition luminance :: "rat \<Rightarrow> rat \<Rightarrow> rat \<Rightarrow> rat" where
  "luminance r g b =
     fadd (fadd (fmul (fl (299 / 1000)) r) (fmul (fl (587 / 1000)) g)) (fmul (fl (114 / 1000)) b)"

definition effectiveLuminance :: "bool \<Rightarrow> rat \<Rightarrow> rat" where
  "effectiveLuminance invert l = (if invert then fsub 255 l else l)"

definition continuousWeight :: "rat \<Rightarrow> rat" where
  "continuousWeight e = fadd (of_int MIN_WEIGHT) (fmul (fdiv e 255) (of_int WEIGHT_RANGE))"

definition finalWeight :: "rat \<Rightarrow> int" where
  "finalWeight e =
     Math_round (max (of_int MIN_WEIGHT) (min (of_int MAX_WEIGHT) (continuousWeight e)))"

definition opacity :: "rat \<Rightarrow> rat" where
  "opacity e = max (fl (1 / 10)) (fdiv e 255)"

definition charLevelIndex :: "rat \<Rightarrow> int" where
  "charLevelIndex e =
     max 0 (min (NUM_CHAR_LEVELS - 1) (Math_floor (fdiv e CHAR_LEVEL_SIZE)))"

definition densityChar :: "16 word list \<Rightarrow> rat \<Rightarrow> jsstring" where
  \<comment> \<open>\<^verbatim>\<open>customCharacters[charLevelIndex % customCharacters.length]\<close>; the index is not negative,
      so \<^verbatim>\<open>%\<close> is \<open>mod\<close>; on an empty array the index is \<^verbatim>\<open>NaN\<close> and the element \<^verbatim>\<open>undefined\<close>\<close>
  "densityChar cs e =
     (if length cs = 0 then js ''undefined''
      else [cs ! nat (charLevelIndex e mod int (length cs))])"

definition span :: "16 word list \<Rightarrow> rat \<Rightarrow> jsstring" where
  \<open>span cs e =
     js ''<span style="opacity: '' @ toFixed3 (opacity e) @ js ''; font-weight: ''
       @ showInt (finalWeight e) @ js '';">'' @ densityChar cs e @ js ''</span>''\<close>

definition nanSpan :: jsstring where
  \<comment> \<open>what the template literal yields when a read of \<^verbatim>\<open>data\<close> is \<^verbatim>\<open>undefined\<close>: the luminance and
      all that is computed from it are \<^verbatim>\<open>NaN\<close>, the array element at \<^verbatim>\<open>NaN\<close> is \<^verbatim>\<open>undefined\<close>\<close>
  \<open>nanSpan = js ''<span style="opacity: NaN; font-weight: NaN;">undefined</span>''\<close>

definition readByte :: "8 word list \<Rightarrow> int \<Rightarrow> rat option" where
  \<comment> \<open>\<^verbatim>\<open>data[i]\<close> on a \<^verbatim>\<open>Uint8ClampedArray\<close>; \<open>None\<close> is \<^verbatim>\<open>undefined\<close>\<close>
  "readByte data i =
     (if 0 \<le> i \<and> nat i < length data then Some (of_nat (unat (data ! nat i))) else None)"

definition cellHtml :: "16 word list \<Rightarrow> bool \<Rightarrow> 8 word list \<Rightarrow> int \<Rightarrow> jsstring" where
  "cellHtml cs invert data i =
     (case (readByte data i, readByte data (i + 1), readByte data (i + 2)) of
        (Some r, Some g, Some b) \<Rightarrow>
          span cs (effectiveLuminance invert (luminance r g b))
      | _ \<Rightarrow> nanSpan)"

section \<open>The component and its collaborators\<close>

text \<open>
  The image element and the canvas are the browser's. Of the image the code reads
  \<^verbatim>\<open>naturalWidth\<close> and \<^verbatim>\<open>naturalHeight\<close>, two \<^verbatim>\<open>unsigned long\<close> attributes. Of the canvas
  it asks for the 2d context, sets the size, draws the image scaled to that size and reads the
  pixels back. What a canvas answers is not code of this repository, so the canvas is a
  parameter: \<open>getContext\<close> tells whether a context is returned, and \<open>getImageData w h\<close> is
  the outcome of lines 77 to 82 for the width \<open>w\<close> and the height \<open>h\<close>, either the value
  thrown or the \<^verbatim>\<open>data\<close> array read.
\<close>

datatype thrown = Error jsstring | NonError

record image =
  naturalWidth :: "32 word"
  naturalHeight :: "32 word"

record canvas =
  getContext :: bool
  getImageData :: "int \<Rightarrow> int number \<Rightarrow> thrown + 8 word list"

datatype statusType = success | error

text \<open>
  The state the callback closes over, and the state it sets. \<open>resolution\<close> is the position
  of the slider, an integer; the model lets it be any integer.
\<close>

record inputs =
  originalImage :: "image option"
  canvasRef :: "canvas option"
  charInput :: jsstring
  invertToggle :: bool
  resolution :: int

record ui =
  artOutputHtml :: jsstring
  isGenerated :: bool
  isGenerating :: bool
  statusMessage :: "(jsstring \<times> statusType) option"

definition showStatus :: "jsstring \<Rightarrow> statusType \<Rightarrow> ui \<Rightarrow> ui" where
  "showStatus text type s = s\<lparr>statusMessage := Some (text, type)\<rparr>"

section \<open>generateBinaryArt\<close>

definition customCharacters :: "jsstring \<Rightarrow> 16 word list" where
  "customCharacters input =
     (let charString = trim input;
          cs = (if length charString > 0 then charString else js ''01'')
      in if length cs = 0 then js ''01'' else cs)"

definition aspectRatio :: "image \<Rightarrow> rat number" where
  \<comment> \<open>\<^verbatim>\<open>naturalHeight / naturalWidth\<close>; a division by zero is \<^verbatim>\<open>Infinity\<close>, or \<^verbatim>\<open>NaN\<close> for \<^verbatim>\<open>0 / 0\<close>\<close>
  "aspectRatio img =
     (if naturalWidth img = 0
      then (if naturalHeight img = 0 then NotANumber else PosInfinity)
      else Finite (fdiv (of_nat (unat (naturalHeight img))) (of_nat (unat (naturalWidth img)))))"

definition resolutionHeight :: "int \<Rightarrow> rat number \<Rightarrow> int number" where
  \<comment> \<open>\<^verbatim>\<open>Math.floor(resolution * aspectRatio * 0.55)\<close>; an infinity keeps its sign under the
      positive factor and under \<^verbatim>\<open>Math.floor\<close>, and zero times an infinity is \<^verbatim>\<open>NaN\<close>\<close>
  "resolutionHeight res ar =
     (case ar of
        Finite a \<Rightarrow> Finite (Math_floor (fmul (fmul (of_int res) a) (fl (55 / 100))))
      | PosInfinity \<Rightarrow>
          (if 0 < res then PosInfinity else if res < 0 then NegInfinity else NotANumber)
      | NegInfinity \<Rightarrow>
          (if 0 < res then NegInfinity else if res < 0 then PosInfinity else NotANumber)
      | NotANumber \<Rightarrow> NotANumber)"

function innerLoop :: "16 word list \<Rightarrow> bool \<Rightarrow> 8 word list \<Rightarrow> int \<Rightarrow> int \<Rightarrow> int \<Rightarrow> jsstring \<Rightarrow> jsstring"
  where
  "innerLoop cs invert data res y x outputHTML =
     (if x < res
      then innerLoop cs invert data res y (x + 1)
             (outputHTML @ cellHtml cs invert data ((y * res + x) * 4))
      else outputHTML)"
  by pat_completeness auto
termination
  by (relation "measure (\<lambda>(cs, invert, data, res, y, x, out). nat (res - x))") auto

declare innerLoop.simps [simp del]

function outerLoop :: "16 word list \<Rightarrow> bool \<Rightarrow> 8 word list \<Rightarrow> int \<Rightarrow> int \<Rightarrow> int \<Rightarrow> jsstring \<Rightarrow> jsstring"
  where
  "outerLoop cs invert data res h y outputHTML =
     (if y < h
      then outerLoop cs invert data res h (y + 1)
             (innerLoop cs invert data res y 0 outputHTML @ [0x0A])
      else outputHTML)"
  by pat_completeness auto
termination
  by (relation "measure (\<lambda>(cs, invert, data, res, h, y, out). nat (h - y))") auto

declare outerLoop.simps [simp del]

definition stringTooLong :: thrown where
  \<comment> \<open>the \<^verbatim>\<open>RangeError\<close> of \<^verbatim>\<open>+=\<close> on a string that has reached the longest the engine allows;
      the message is the engine's, here that of V8\<close>
  "stringTooLong = Error (js ''Invalid string length'')"

definition loops :: "16 word list \<Rightarrow> bool \<Rightarrow> 8 word list \<Rightarrow> int \<Rightarrow> int number \<Rightarrow> thrown + jsstring"
  where
  \<comment> \<open>the two nested \<^verbatim>\<open>for\<close> loops, from \<^verbatim>\<open>outputHTML = ''\<close>. \<^verbatim>\<open>y < NaN\<close> and \<^verbatim>\<open>y < -Infinity\<close>
      are false at once. \<^verbatim>\<open>y < Infinity\<close> never is: every turn appends a line break at least,
      the string outgrows what the engine allows and \<^verbatim>\<open>+=\<close> throws. The document of a
      finite grid is taken to fit into a string\<close>
  "loops cs invert data res h =
     (case h of
        Finite n \<Rightarrow> Inr (outerLoop cs invert data res n 0 [])
      | PosInfinity \<Rightarrow> Inl stringTooLong
      | NegInfinity \<Rightarrow> Inr []
      | NotANumber \<Rightarrow> Inr [])"

definition tryBlock :: "inputs \<Rightarrow> image \<Rightarrow> canvas \<Rightarrow> thrown + jsstring" where
  \<comment> \<open>the body of \<^verbatim>\<open>try\<close>: \<open>Inl\<close> the value thrown, \<open>Inr\<close> the finished \<^verbatim>\<open>outputHTML\<close>\<close>
  "tryBlock i img cv =
     (let cs = customCharacters (charInput i);
          h = resolutionHeight (resolution i) (aspectRatio img)
      in if \<not> getContext cv then Inl (Error (js ''Could not get canvas context''))
         else case getImageData cv (resolution i) h of
                Inl e \<Rightarrow> Inl e
              | Inr data \<Rightarrow> loops cs (invertToggle i) data (resolution i) h)"

definition errorMessage :: "thrown \<Rightarrow> jsstring" where
  "errorMessage e = (case e of Error m \<Rightarrow> m | NonError \<Rightarrow> js ''An unknown error occurred.'')"

definition timeoutCallback :: "inputs \<Rightarrow> image \<Rightarrow> canvas \<Rightarrow> ui \<Rightarrow> ui" where
  \<comment> \<open>the function handed to \<^verbatim>\<open>setTimeout\<close>: \<^verbatim>\<open>try\<close>, \<^verbatim>\<open>catch\<close> and \<^verbatim>\<open>finally\<close>\<close>
  "timeoutCallback i img cv s =
     (case tryBlock i img cv of
        Inr outputHTML \<Rightarrow>
          (showStatus (js ''Art generated! You can now download the file.'') success
             (s\<lparr>artOutputHtml := outputHTML, isGenerated := True\<rparr>))
          \<lparr>isGenerating := False\<rparr>
      | Inl e \<Rightarrow>
          (showStatus (js ''Failed to generate art: '' @ errorMessage e) error s)
          \<lparr>isGenerating := False\<rparr>)"

definition analyzing :: jsstring where
  \<open>analyzing = js ''<p class="text-center text-blue-400 p-12">Analyzing image and generating characters...</p>''\<close>

definition generateBinaryArt :: "inputs \<Rightarrow> ui \<Rightarrow> ui \<times> (image \<times> canvas) option" where
  \<comment> \<open>the part that runs at the click: the new state, and the image and canvas of the
      callback it has scheduled, if it has\<close>
  "generateBinaryArt i s =
     (case (originalImage i, canvasRef i) of
        (Some img, Some cv) \<Rightarrow>
          (showStatus (js ''Generating... please wait.'') success
             (s\<lparr>isGenerating := True, isGenerated := False, artOutputHtml := analyzing\<rparr>),
           Some (img, cv))
      | _ \<Rightarrow> (showStatus (js ''Please upload an image first.'') error s, None))"

definition generation :: "inputs \<Rightarrow> ui \<Rightarrow> ui" where
  \<comment> \<open>a whole run: the click, then the callback once the timer fires\<close>
  "generation i s =
     (case generateBinaryArt i s of
        (s', None) \<Rightarrow> s'
      | (s', Some (img, cv)) \<Rightarrow> timeoutCallback i img cv s')"

subsection \<open>The two ends of a run\<close>

definition failedWith :: "jsstring \<Rightarrow> ui" where
  \<comment> \<open>the state a run that threw ends in\<close>
  "failedWith message =
     \<lparr>artOutputHtml = analyzing, isGenerated = False, isGenerating = False,
      statusMessage = Some (js ''Failed to generate art: '' @ message, error)\<rparr>"

definition succeededWith :: "jsstring \<Rightarrow> ui" where
  \<comment> \<open>the state a run that finished its loops ends in\<close>
  "succeededWith outputHTML =
     \<lparr>artOutputHtml = outputHTML, isGenerated = True, isGenerating = False,
      statusMessage = Some (js ''Art generated! You can now download the file.'', success)\<rparr>"

section \<open>The formulas of the specification\<close>

text \<open>
  The specification's formulas, written after its words: what the theorems below compare the
  code with. The formulas of a cell are evaluated in the arithmetic of the program, on the
  luminance the program has computed; the height of the grid is the exact one.
\<close>

definition spec_level :: "rat \<Rightarrow> int" where
  \<comment> \<open>\<open>levelSize = 256/14\<close>; \<open>level = floor(effective/levelSize)\<close>, clamped to \<open>[0,13]\<close>\<close>
  "spec_level effective =
     (let levelSize = fdiv 256 14;
          level = \<lfloor>fdiv effective levelSize\<rfloor>
      in if level < 0 then 0 else if 13 < level then 13 else level)"

definition spec_character :: "16 word list \<Rightarrow> rat \<Rightarrow> 16 word" where
  \<comment> \<open>\<open>characterCycle[level mod len(characterCycle)]\<close>\<close>
  "spec_character characterCycle effective =
     characterCycle ! (nat (spec_level effective) mod length characterCycle)"

definition spec_targetHeight :: "int \<Rightarrow> nat \<Rightarrow> nat \<Rightarrow> int" where
  \<comment> \<open>\<open>targetHeight = floor(targetWidth * (H/W) * 0.55)\<close>, a formula about the dimensions
      of the grid: in exact arithmetic\<close>
  "spec_targetHeight targetWidth W H =
     \<lfloor>(of_int targetWidth :: rat) * (of_nat H / of_nat W) * (55 / 100)\<rfloor>"

definition spec_weight :: "rat \<Rightarrow> int" where
  \<comment> \<open>\<open>weight = round(300 + (effective/255)*400)\<close>, clamped to \<open>[300,700]\<close>; the rounding
      is that of \<^verbatim>\<open>Math.round\<close>\<close>
  "spec_weight effective =
     (let weight = Math_round (fadd 300 (fmul (fdiv effective 255) 400))
      in if weight < 300 then 300 else if 700 < weight then 700 else weight)"

definition rowHtml :: "16 word list \<Rightarrow> bool \<Rightarrow> 8 word list \<Rightarrow> int \<Rightarrow> int \<Rightarrow> jsstring" where
  \<comment> \<open>row \<open>y\<close> of the document: the cells of the columns \<open>0\<close> to \<open>res - 1\<close>, then a line break\<close>
  "rowHtml cs invert data res y =
     concat (map (\<lambda>x. cellHtml cs invert data ((y * res + x) * 4)) [0..res - 1]) @ [0x0A]"


section \<open>Example collaborators\<close>

text \<open>
  Two canvases for the examples. \<open>standardCanvas\<close> answers as the HTML standard says a
  canvas does, over an image whose bytes are all \<open>0\<close>: a read of an empty rectangle throws
  (\<^verbatim>\<open>IndexSizeError\<close>), a size that is not finite throws (\<^verbatim>\<open>TypeError\<close>), and any other size,
  negative ones included, gives four bytes for each pixel of the rectangle.
  \<open>lenientCanvas\<close> differs in one point: it answers a read of an empty rectangle with an
  empty array.
\<close>

definition standardCanvas :: canvas where
  "standardCanvas =
     \<lparr>getContext = True,
      getImageData = (\<lambda>w h. case h of
          Finite n \<Rightarrow>
            if w = 0 then Inl (Error (js ''The source width is 0.''))
            else if n = 0 then Inl (Error (js ''The source height is 0.''))
            else Inr (replicate (nat (4 * \<bar>w\<bar> * \<bar>n\<bar>)) 0)
        | _ \<Rightarrow> Inl (Error (js ''The provided value is non-finite.'')))\<rparr>"

definition lenientCanvas :: canvas where
  "lenientCanvas =
     \<lparr>getContext = True,
      getImageData = (\<lambda>w h. case h of
          Finite n \<Rightarrow> Inr (replicate (nat (4 * \<bar>w\<bar> * \<bar>n\<bar>)) 0)
        | _ \<Rightarrow> Inl (Error (js ''The provided value is non-finite.'')))\<rparr>"

definition greyCanvas :: canvas where
  \<comment> \<open>a canvas over an opaque image of the one colour \<open>(128, 128, 128)\<close>, for one pixel\<close>
  "greyCanvas = \<lparr>getContext = True, getImageData = (\<lambda>w h. Inr [128, 128, 128, 255])\<rparr>"

definition wideImage :: image where
  "wideImage = \<lparr>naturalWidth = 1000, naturalHeight = 1\<rparr>"

definition landscapeImage :: image where
  "landscapeImage = \<lparr>naturalWidth = 200, naturalHeight = 100\<rparr>"

definition tallImage :: image where
  "tallImage = \<lparr>naturalWidth = 1, naturalHeight = 2\<rparr>"

definition portraitImage :: image where
  "portraitImage = \<lparr>naturalWidth = 9, naturalHeight = 37\<rparr>"

definition squarishImage :: image where
  "squarishImage = \<lparr>naturalWidth = 55, naturalHeight = 58\<rparr>"

definition request :: "image \<Rightarrow> canvas \<Rightarrow> int \<Rightarrow> inputs" where
  \<comment> \<open>a click with the default characters \<open>01\<close>, no inversion, and the given width\<close>
  "request img cv res =
     \<lparr>originalImage = Some img, canvasRef = Some cv, charInput = js ''01'',
      invertToggle = False, resolution = res\<rparr>"

definition published :: ui where
  \<comment> \<open>the state after an earlier run has succeeded, with its document on display\<close>
  \<open>published =
     \<lparr>artOutputHtml = js ''<span style="opacity: 0.502; font-weight: 501;">1</span>'' @ [0x0A],
      isGenerated = True, isGenerating = False,
      statusMessage = Some (js ''Art generated! You can now download the file.'', success)\<rparr>\<close>

section \<open>Properties of the rounding\<close>

text \<open>
  The rounding is monotone, exact on every number that has a 53-bit significand (so
  idempotent, and the identity on the integers up to \<open>2 ^ 53\<close>), odd, and off by at most
  the fraction \<open>2 ^ - 53\<close> of its argument.
\<close>

lemma bitlen_pos_bounds:
  assumes "1 \<le> n"
  shows "1 \<le> bitlen n" "(2::rat) powi (bitlen n - 1) \<le> of_int n" "of_int n + 1 \<le> (2::rat) powi (bitlen n)"
proof -
  from assms have n: "0 < n" by simp
  from bitlen_bounds[OF n] have b: "2 ^ nat (bitlen n - 1) \<le> n" "n < 2 ^ nat (bitlen n)" by auto
  show l: "1 \<le> bitlen n" using n by (auto simp: bitlen_alt_def)
  have "(2::rat) powi (bitlen n - 1) = of_int (2 ^ nat (bitlen n - 1))"
    using l by (simp add: power_int_def)
  also have "\<dots> \<le> of_int n" using b(1) by (simp only: of_int_le_iff)
  finally show "(2::rat) powi (bitlen n - 1) \<le> of_int n" .
  have "n + 1 \<le> 2 ^ nat (bitlen n)" using b(2) by simp
  then have "(of_int (n + 1) :: rat) \<le> of_int (2 ^ nat (bitlen n))" by (simp only: of_int_le_iff)
  also have "\<dots> = (2::rat) powi (bitlen n)" using l by (simp add: power_int_def)
  finally show "of_int n + 1 \<le> (2::rat) powi (bitlen n)" by simp
qed

lemma expo_bounds:
  assumes "q \<noteq> 0"
  shows "2 powi (expo q) \<le> \<bar>q\<bar>" "\<bar>q\<bar> < 2 powi (expo q + 1)"
proof -
  have "2 powi (expo q) \<le> \<bar>q\<bar> \<and> \<bar>q\<bar> < 2 powi (expo q + 1)"
  proof (cases "1 \<le> \<bar>q\<bar>")
    case True
    define n where "n = \<lfloor>\<bar>q\<bar>\<rfloor>"
    have n1: "1 \<le> n" using True by (simp add: n_def le_floor_iff)
    have e: "expo q = bitlen n - 1" using True by (simp add: expo_def n_def)
    have "of_int n \<le> \<bar>q\<bar>" "\<bar>q\<bar> < of_int n + 1"
      unfolding n_def using floor_correct[of "\<bar>q\<bar>"] by auto
    with bitlen_pos_bounds[OF n1] show ?thesis unfolding e by auto
  next
    case False
    define t where "t = 1 / \<bar>q\<bar>"
    define n where "n = \<lceil>t\<rceil> - 1"
    have q0: "0 < \<bar>q\<bar>" using assms by simp
    have t1: "1 < t" using False q0 by (simp add: t_def)
    have n1: "1 \<le> n" using t1 by (simp add: n_def less_ceiling_iff)
    have e: "expo q = - bitlen n" using False by (simp add: expo_def n_def t_def)
    have nt: "of_int n < t" "t \<le> of_int n + 1"
      unfolding n_def using ceiling_correct[of t] by auto
    from bitlen_pos_bounds[OF n1] nt have
      lo: "(2::rat) powi (bitlen n - 1) < t" and hi: "t \<le> (2::rat) powi (bitlen n)" by auto
    have "2 powi (- bitlen n) \<le> \<bar>q\<bar>"
    proof -
      have "1 / (2::rat) powi (bitlen n) \<le> 1 / t"
        using hi t1 by (intro divide_left_mono) auto
      then show ?thesis by (simp add: t_def power_int_minus field_simps)
    qed
    moreover have "\<bar>q\<bar> < 2 powi (- bitlen n + 1)"
    proof -
      have "1 / t < 1 / (2::rat) powi (bitlen n - 1)"
        using lo t1 by (intro divide_strict_left_mono) (auto simp: zero_less_power_int)
      moreover have "(2::rat) powi (- bitlen n + 1) = inverse (2 powi (bitlen n - 1))"
        using power_int_minus[of "2::rat" "bitlen n - 1"] by simp
      moreover have "1 / t = \<bar>q\<bar>" by (simp add: t_def)
      ultimately show ?thesis by (simp add: inverse_eq_divide)
    qed
    ultimately show ?thesis unfolding e by simp
  qed
  then show "2 powi (expo q) \<le> \<bar>q\<bar>" "\<bar>q\<bar> < 2 powi (expo q + 1)" by auto
qed

lemma pow2_less_cancel:
  assumes "(2::rat) powi a < 2 powi b"
  shows "a < b"
proof (rule ccontr)
  assume "\<not> a < b"
  then have "b \<le> a" by simp
  from power_int_increasing[OF this, of "2::rat"] have "(2::rat) powi b \<le> 2 powi a" by simp
  with assms show False by simp
qed

lemma expo_unique:
  assumes "2 powi e \<le> \<bar>q\<bar>" "\<bar>q\<bar> < 2 powi (e + 1)"
  shows "expo q = e"
proof -
  have p: "(0::rat) < 2 powi e" by (rule zero_less_power_int) simp
  from p assms(1) have "0 < \<bar>q\<bar>" by linarith
  then have q: "q \<noteq> 0" by auto
  note b = expo_bounds[OF q]
  have "(2::rat) powi e < 2 powi (expo q + 1)" using assms(1) b(2) by simp
  then have 1: "e < expo q + 1" by (rule pow2_less_cancel)
  have "(2::rat) powi (expo q) < 2 powi (e + 1)" using assms(2) b(1) by simp
  then have 2: "expo q < e + 1" by (rule pow2_less_cancel)
  from 1 2 show ?thesis by simp
qed

lemma rne_of_int [simp]: "rne (of_int n) = n"
  by (simp add: rne_def)

lemma rne_bounds: "of_int (rne m) \<le> m + 1 / 2" "m - 1 / 2 \<le> of_int (rne m)"
proof -
  define f where "f = \<lfloor>m\<rfloor>"
  have f: "of_int f \<le> m" "m < of_int f + 1"
    unfolding f_def using floor_correct[of m] by auto
  have r: "rne m = (if m - of_int f < 1 / 2 then f else if 1 / 2 < m - of_int f then f + 1
                    else if even f then f else f + 1)"
    by (simp add: rne_def Let_def f_def)
  show "of_int (rne m) \<le> m + 1 / 2" unfolding r using f by (auto split: if_splits)
  show "m - 1 / 2 \<le> of_int (rne m)" unfolding r using f by (auto split: if_splits)
qed

lemma rne_floor: "\<lfloor>m\<rfloor> \<le> rne m" "rne m \<le> \<lfloor>m\<rfloor> + 1"
  by (auto simp: rne_def Let_def)

lemma rne_mono:
  assumes "a \<le> b"
  shows "rne a \<le> rne b"
proof (cases "\<lfloor>a\<rfloor> = \<lfloor>b\<rfloor>")
  case True
  with assms show ?thesis by (auto simp: rne_def Let_def)
next
  case False
  with assms have "\<lfloor>a\<rfloor> < \<lfloor>b\<rfloor>" using floor_mono[OF assms] by simp
  with rne_floor(2)[of a] rne_floor(1)[of b] show ?thesis by simp
qed

lemma rne_minus: "rne (- m) = - rne m"
proof (cases "m = of_int \<lfloor>m\<rfloor>")
  case True
  then obtain n where "m = of_int n" ..
  then have "- m = of_int (- n)" by simp
  then show ?thesis unfolding \<open>m = of_int n\<close> by (simp only: rne_of_int)
next
  case False
  define f where "f = \<lfloor>m\<rfloor>"
  have "of_int \<lfloor>m\<rfloor> \<le> m" "m < of_int \<lfloor>m\<rfloor> + 1"
    using floor_correct[of m] by auto
  with False have f: "of_int f < m" "m < of_int f + 1"
    unfolding f_def by linarith+
  have fm: "\<lfloor>- m\<rfloor> = - f - 1"
    using f by (intro floor_unique) auto
  have r: "rne m = (if m - of_int f < 1 / 2 then f else if 1 / 2 < m - of_int f then f + 1
                    else if even f then f else f + 1)"
    by (simp add: rne_def Let_def f_def)
  have r': "rne (- m) = (if - m - of_int (- f - 1) < 1 / 2 then - f - 1
                    else if 1 / 2 < - m - of_int (- f - 1) then - f
                    else if even (- f - 1) then - f - 1 else - f)"
    by (simp add: rne_def Let_def fm)
  show ?thesis unfolding r r' by (auto split: if_splits)
qed

lemma fl_zero [simp]: "fl 0 = 0"
  by (simp add: fl_def)

lemma expo_minus [simp]: "expo (- q) = expo q"
  by (simp add: expo_def)

lemma fl_minus: "fl (- q) = - fl q"
  by (simp add: fl_def Let_def rne_minus)

lemma fl_pos_bounds:
  assumes "0 < q"
  shows "2 powi (expo q) \<le> fl q" "fl q \<le> 2 powi (expo q + 1)"
proof -
  define u :: rat where "u = 2 powi (expo q - 52)"
  have u: "0 < u" by (simp add: u_def zero_less_power_int)
  have q0: "q \<noteq> 0" using assms by simp
  have f: "fl q = of_int (rne (q / u)) * u" using q0 by (simp add: fl_def Let_def u_def)
  have lo: "2 powi (expo q) = of_int (2 ^ 52) * u"
    by (simp add: u_def power_int_diff)
  have hi: "2 powi (expo q + 1) = of_int (2 ^ 53) * u"
    by (simp add: u_def power_int_diff power_int_add)
  from expo_bounds[OF q0] assms have b: "of_int (2 ^ 52) * u \<le> q" "q \<le> of_int (2 ^ 53) * u"
    unfolding lo hi by auto
  have "of_int (2 ^ 52) \<le> q / u" using b(1) u by (simp add: field_simps)
  from rne_mono[OF this] have 1: "2 ^ 52 \<le> rne (q / u)" by (simp only: rne_of_int)
  have "q / u \<le> of_int (2 ^ 53)" using b(2) u by (simp add: field_simps)
  from rne_mono[OF this] have 2: "rne (q / u) \<le> 2 ^ 53" by (simp only: rne_of_int)
  from 1 have "(of_int (2 ^ 52) :: rat) \<le> of_int (rne (q / u))" by (simp only: of_int_le_iff)
  then show "2 powi (expo q) \<le> fl q" unfolding lo f using u by (simp only: mult_le_cancel_right_pos)
  from 2 have "(of_int (rne (q / u)) :: rat) \<le> of_int (2 ^ 53)" by (simp only: of_int_le_iff)
  then show "fl q \<le> 2 powi (expo q + 1)" unfolding hi f using u by (simp only: mult_le_cancel_right_pos)
qed

lemma expo_mono_pos:
  assumes "0 < a" "a \<le> b"
  shows "expo a \<le> expo b"
proof -
  have a: "a \<noteq> 0" and b: "b \<noteq> 0" using assms by auto
  have "2 powi (expo a) \<le> \<bar>a\<bar>" by (rule expo_bounds[OF a])
  also have "\<bar>a\<bar> \<le> \<bar>b\<bar>" using assms by simp
  also have "\<bar>b\<bar> < 2 powi (expo b + 1)" by (rule expo_bounds[OF b])
  finally have "expo a < expo b + 1" by (rule pow2_less_cancel)
  then show ?thesis by simp
qed

lemma fl_mono_pos:
  assumes "0 < a" "a \<le> b"
  shows "fl a \<le> fl b"
proof (cases "expo a = expo b")
  case True
  define u :: rat where "u = 2 powi (expo b - 52)"
  have u: "0 < u" by (simp add: u_def zero_less_power_int)
  have fa: "fl a = of_int (rne (a / u)) * u" using assms True by (simp add: fl_def Let_def u_def)
  have fb: "fl b = of_int (rne (b / u)) * u" using assms by (simp add: fl_def Let_def u_def)
  have "a / u \<le> b / u" using assms(2) u by (simp add: divide_right_mono)
  from rne_mono[OF this] have "(of_int (rne (a / u)) :: rat) \<le> of_int (rne (b / u))"
    by (simp only: of_int_le_iff)
  then show ?thesis unfolding fa fb using u by (simp only: mult_le_cancel_right_pos)
next
  case False
  with expo_mono_pos[OF assms] have "expo a + 1 \<le> expo b" by simp
  from power_int_increasing[OF this, of "2::rat"]
  have "(2::rat) powi (expo a + 1) \<le> 2 powi (expo b)" by simp
  moreover have "fl a \<le> 2 powi (expo a + 1)" by (rule fl_pos_bounds[OF assms(1)])
  moreover have "2 powi (expo b) \<le> fl b" using assms by (intro fl_pos_bounds) simp
  ultimately show ?thesis by linarith
qed

lemma fl_pos: "0 < q \<Longrightarrow> 0 < fl q"
proof -
  assume q: "0 < q"
  have "(0::rat) < 2 powi (expo q)" by (rule zero_less_power_int) simp
  also have "\<dots> \<le> fl q" by (rule fl_pos_bounds[OF q])
  finally show ?thesis .
qed

lemma fl_neg: "q < 0 \<Longrightarrow> fl q < 0"
  using fl_pos[of "- q"] by (simp add: fl_minus)

lemma fl_mono:
  assumes "a \<le> b"
  shows "fl a \<le> fl b"
proof -
  consider "0 < a" | "a \<le> 0" "0 \<le> b" | "b < 0" using assms by linarith
  then show ?thesis
  proof cases
    case 1
    then show ?thesis using assms by (rule fl_mono_pos)
  next
    case 2
    have "fl a \<le> 0" using 2(1) fl_neg[of a] by (cases "a = 0") auto
    moreover have "0 \<le> fl b" using 2(2) fl_pos[of b] by (cases "b = 0") auto
    ultimately show ?thesis by simp
  next
    case 3
    then have "0 < - b" "- b \<le> - a" using assms by auto
    from fl_mono_pos[OF this] show ?thesis by (simp add: fl_minus)
  qed
qed

lemma fl_exact_aux:
  assumes "\<bar>n\<bar> < 2 ^ 53"
  shows "fl (of_int n * 2 powi k) = of_int n * 2 powi k"
proof (cases "n = 0")
  case True
  then show ?thesis by simp
next
  case False
  define x :: rat where "x = of_int n * 2 powi k"
  define e where "e = expo x"
  have p: "(0::rat) < 2 powi k" by (rule zero_less_power_int) simp
  have x0: "x \<noteq> 0" using False by (simp add: x_def)
  have ax: "\<bar>x\<bar> = of_int \<bar>n\<bar> * 2 powi k" using p by (simp add: x_def abs_mult)
  have "(of_int \<bar>n\<bar> :: rat) < of_int (2 ^ 53)" using assms by (simp only: of_int_less_iff)
  then have "\<bar>x\<bar> < of_int (2 ^ 53) * 2 powi k" unfolding ax using p
    by (simp only: mult_less_cancel_right_pos)
  also have "\<dots> = 2 powi (53 + k)" by (simp add: power_int_add)
  finally have "\<bar>x\<bar> < 2 powi (53 + k)" .
  with expo_bounds(1)[OF x0] have "(2::rat) powi e < 2 powi (53 + k)" unfolding e_def by simp
  then have "e < 53 + k" by (rule pow2_less_cancel)
  then have d: "0 \<le> k - e + 52" by simp
  define d where "d = nat (k - e + 52)"
  have kd: "k = int d + (e - 52)" using d by (simp add: d_def)
  have x': "x = of_int (n * 2 ^ d) * 2 powi (e - 52)"
    unfolding x_def kd by (simp add: power_int_add)
  have u: "(2::rat) powi (e - 52) \<noteq> 0" by simp
  have "x / 2 powi (e - 52) = of_int (n * 2 ^ d)" unfolding x' using u by simp
  then have "fl x = of_int (n * 2 ^ d) * 2 powi (e - 52)"
    using x0 by (simp only: fl_def Let_def e_def[symmetric] rne_of_int if_False)
  then have "fl x = x" by (rule trans[OF _ x'[symmetric]])
  then show ?thesis unfolding x_def .
qed

lemma fl_exact:
  assumes "\<bar>n\<bar> \<le> 2 ^ 53"
  shows "fl (of_int n * 2 powi k) = of_int n * 2 powi k"
proof (cases "\<bar>n\<bar> < 2 ^ 53")
  case True
  then show ?thesis by (rule fl_exact_aux)
next
  case False
  with assms have n: "\<bar>n\<bar> = 2 ^ 53" by simp
  define n' where "n' = n div 2"
  from n have "n = 2 ^ 53 \<or> n = - (2 ^ 53)" by linarith
  then have n2: "n = 2 * n'" and n': "\<bar>n'\<bar> < 2 ^ 53" unfolding n'_def by auto
  have "of_int n * (2::rat) powi k = of_int n' * 2 powi (k + 1)"
    unfolding n2 by (simp add: power_int_add)
  with fl_exact_aux[OF n', of "k + 1"] show ?thesis by simp
qed

lemma fl_of_int: "\<bar>n\<bar> \<le> 2 ^ 53 \<Longrightarrow> fl (of_int n) = of_int n"
  using fl_exact[of n 0] by simp

lemma fl_significand:
  assumes "q \<noteq> 0"
  shows "\<bar>rne (q / 2 powi (expo q - 52))\<bar> \<le> 2 ^ 53"
proof -
  define u :: rat where "u = 2 powi (expo q - 52)"
  have u: "0 < u" by (simp add: u_def zero_less_power_int)
  have hi: "2 powi (expo q + 1) = of_int (2 ^ 53) * u"
    by (simp add: u_def power_int_diff power_int_add)
  from expo_bounds(2)[OF assms] have "\<bar>q\<bar> \<le> of_int (2 ^ 53) * u" unfolding hi by simp
  then have "\<bar>q\<bar> / u \<le> of_int (2 ^ 53)" using u by (simp add: field_simps)
  then have b: "q / u \<le> of_int (2 ^ 53)" "of_int (- (2 ^ 53)) \<le> q / u"
    using u by (auto simp: abs_le_iff field_simps)
  from rne_mono[OF b(1)] rne_mono[OF b(2)] show ?thesis
    unfolding u_def by (simp only: rne_of_int abs_le_iff) simp
qed

lemma fl_idem [simp]: "fl (fl q) = fl q"
proof (cases "q = 0")
  case True
  then show ?thesis by simp
next
  case False
  then have "fl q = of_int (rne (q / 2 powi (expo q - 52))) * 2 powi (expo q - 52)"
    by (simp add: fl_def Let_def)
  with fl_exact[OF fl_significand[OF False], of "expo q - 52"] show ?thesis by simp
qed

lemma fl_error:
  "\<bar>fl q - q\<bar> \<le> \<bar>q\<bar> / 2 ^ 53"
proof (cases "q = 0")
  case True
  then show ?thesis by simp
next
  case False
  define u :: rat where "u = 2 powi (expo q - 52)"
  have u: "0 < u" by (simp add: u_def zero_less_power_int)
  have f: "fl q = of_int (rne (q / u)) * u" using False by (simp add: fl_def Let_def u_def)
  have "\<bar>of_int (rne (q / u)) - q / u\<bar> \<le> 1 / 2"
    using rne_bounds[of "q / u"] by linarith
  then have "\<bar>of_int (rne (q / u)) - q / u\<bar> * u \<le> 1 / 2 * u"
    using u by (simp only: mult_le_cancel_right_pos)
  moreover have "\<bar>of_int (rne (q / u)) - q / u\<bar> * u = \<bar>fl q - q\<bar>"
  proof -
    have "(of_int (rne (q / u)) - q / u) * u = fl q - q"
      using u unfolding f by (simp add: left_diff_distrib)
    then have "\<bar>fl q - q\<bar> = \<bar>of_int (rne (q / u)) - q / u\<bar> * \<bar>u\<bar>"
      by (simp only: abs_mult[symmetric])
    then show ?thesis using u by simp
  qed
  moreover have "1 / 2 * u = 2 powi (expo q) / 2 ^ 53"
    by (simp add: u_def power_int_diff)
  moreover have "2 powi (expo q) / 2 ^ 53 \<le> \<bar>q\<bar> / 2 ^ 53"
    using expo_bounds(1)[OF False] by (simp add: divide_right_mono)
  ultimately show ?thesis by simp
qed


subsection \<open>Evaluating the rounding\<close>

text \<open>Equations by which the simplifier computes \<open>fl\<close> at a numeral.\<close>

lemma pow2_eval: "(2::rat) powi e = (if 0 \<le> e then 2 ^ nat e else 1 / 2 ^ nat (- e))"
  by (simp add: power_int_def power_one_over[symmetric] inverse_eq_divide)

lemma bitlen_eval: "bitlen n = (if 0 < n then bitlen (n div 2) + 1 else 0)"
proof (cases "0 < n")
  case True
  then have "nat n div 2 = nat (n div 2)" by (simp add: nat_div_distrib)
  with True show ?thesis
    unfolding bitlen_def by (subst compute_floorlog) simp
next
  case False
  then show ?thesis by (simp add: bitlen_def floorlog_def)
qed

lemma floor_rat_numeral [simp]:
  "\<lfloor>(numeral a :: rat) / numeral b\<rfloor> = numeral a div numeral b"
  "\<lfloor>- ((numeral a :: rat) / numeral b)\<rfloor> = - numeral a div numeral b"
  using floor_divide_of_int_eq[of "numeral a" "numeral b", where ?'a = rat]
    floor_divide_of_int_eq[of "- numeral a" "numeral b", where ?'a = rat] by simp_all

lemma ceiling_rat_numeral [simp]:
  "\<lceil>(numeral a :: rat) / numeral b\<rceil> = - (- numeral a div numeral b)"
  "\<lceil>- ((numeral a :: rat) / numeral b)\<rceil> = - (numeral a div numeral b)"
  by (simp_all add: ceiling_def)

lemmas fl_eval = fl_def expo_def bitlen_eval pow2_eval rne_def Let_def
  fadd_def fsub_def fmul_def fdiv_def

subsection \<open>The operations are monotone\<close>

lemma fl_nonneg: "0 \<le> q \<Longrightarrow> 0 \<le> fl q"
  using fl_mono[of 0 q] by simp

lemma fl_nonpos: "q \<le> 0 \<Longrightarrow> fl q \<le> 0"
  using fl_mono[of q 0] by simp

lemma fdiv_mono: "a \<le> b \<Longrightarrow> 0 < c \<Longrightarrow> fdiv a c \<le> fdiv b c"
  unfolding fdiv_def by (intro fl_mono divide_right_mono) simp_all

lemma fmul_mono: "a \<le> b \<Longrightarrow> 0 \<le> c \<Longrightarrow> fmul a c \<le> fmul b c"
  unfolding fmul_def by (intro fl_mono mult_right_mono)

lemma fmul_mono_left: "a \<le> b \<Longrightarrow> 0 \<le> c \<Longrightarrow> fmul c a \<le> fmul c b"
  unfolding fmul_def by (intro fl_mono mult_left_mono)

lemma fadd_mono: "a \<le> b \<Longrightarrow> fadd c a \<le> fadd c b"
  unfolding fadd_def by (intro fl_mono) simp

lemma fadd_mono2: "a \<le> b \<Longrightarrow> c \<le> d \<Longrightarrow> fadd a c \<le> fadd b d"
  unfolding fadd_def by (intro fl_mono add_mono)


section \<open>The character cycle and the level of a luminance\<close>

lemma clamp_int: "max lo (min hi f) = (if f < lo then lo else if hi < f then hi else f)"
  if "lo \<le> hi" for lo hi f :: int
  using that by auto

lemma charLevelIndex_spec: "charLevelIndex e = spec_level e"
  unfolding charLevelIndex_def spec_level_def Let_def NUM_CHAR_LEVELS_def CHAR_LEVEL_SIZE_def
    Math_floor_def
  by (subst clamp_int) simp_all

lemma charLevelIndex_range: "0 \<le> charLevelIndex e" "charLevelIndex e \<le> 13"
  by (simp_all add: charLevelIndex_def NUM_CHAR_LEVELS_def)

lemma customCharacters_eq:
  "customCharacters input = (if trim input = [] then js ''01'' else trim input)"
  by (simp add: customCharacters_def Let_def js_def)

lemma customCharacters_nonempty: "customCharacters input \<noteq> []"
  by (simp add: customCharacters_eq js_def)

lemma level_size: "fdiv 256 14 = 2573485501354569 / 140737488355328"
  by (simp add: fl_eval)

lemma level_values:
  "spec_level 0 = 0" "spec_level 19 = 1" "spec_level 37 = 2" "spec_level 55 = 3"
  "spec_level 74 = 4" "spec_level 92 = 5" "spec_level 110 = 6" "spec_level 128 = 7"
  "spec_level 147 = 8" "spec_level 165 = 9" "spec_level 183 = 10" "spec_level 202 = 11"
  "spec_level 220 = 12" "spec_level 238 = 13"
  unfolding spec_level_def level_size by (simp_all add: fl_eval)

lemma levels_attained:
  "map (\<lambda>n. spec_level (of_int n)) [0, 19, 37, 55, 74, 92, 110, 128, 147, 165, 183, 202, 220, 238]
     = [0, 1, 2, 3, 4, 5, 6, 7, 8, 9, 10, 11, 12, 13]"
  by (simp add: level_values)

lemma trim_AB: "trim (js ''AB'') = js ''AB''"
  by (simp add: trim_def js_def isWhiteSpace_def)

lemma densityChar_index:
  assumes "cs \<noteq> []"
  shows "densityChar cs e = [cs ! (nat (charLevelIndex e) mod length cs)]"
proof -
  have "nat (charLevelIndex e mod int (length cs)) = nat (charLevelIndex e) mod length cs"
    using charLevelIndex_range(1)[of e] by (simp add: nat_mod_distrib)
  with assms show ?thesis by (simp add: densityChar_def)
qed

lemma trim_all_white:
  assumes "list_all isWhiteSpace s"
  shows "trim s = []"
proof -
  have "dropWhile isWhiteSpace s = []"
    using assms unfolding list_all_iff by (simp only: dropWhile_eq_Nil_conv)
  then show ?thesis by (simp add: trim_def del: dropWhile_eq_Nil_conv)
qed

lemma cycle_index:
  assumes "cs \<noteq> []"
  shows "0 \<le> charLevelIndex e mod int (length cs)"
    "nat (charLevelIndex e mod int (length cs)) < length cs"
  using assms by (simp_all add: nat_less_iff)

text \<open>
  C1. Whatever the user typed and whatever the effective luminance, the character put into
  the cell is the element of the character cycle at the level modulo the length of the cycle,
  where the level is the floor of the luminance divided by \<open>256/14\<close>, clamped to
  \<open>0 .. 13\<close>. With the cycle \<open>AB\<close> an even level selects \<open>A\<close> and an odd level
  \<open>B\<close>, and each of the fourteen levels is the level of some luminance between 0 and 255.
\<close>

theorem character_selection:
  "densityChar (customCharacters input) e = [spec_character (customCharacters input) e]
   \<and> 0 \<le> spec_level e \<and> spec_level e \<le> 13
   \<and> customCharacters (js ''AB'') = js ''AB''
   \<and> densityChar (js ''AB'') e = (if even (spec_level e) then js ''A'' else js ''B'')
   \<and> map (\<lambda>n. spec_level (of_int n))
         [0, 19, 37, 55, 74, 92, 110, 128, 147, 165, 183, 202, 220, 238]
       = [0, 1, 2, 3, 4, 5, 6, 7, 8, 9, 10, 11, 12, 13]"
proof -
  have 1: "densityChar (customCharacters input) e = [spec_character (customCharacters input) e]"
    using densityChar_index[OF customCharacters_nonempty, of input e]
    by (simp add: spec_character_def charLevelIndex_spec)
  have 2: "0 \<le> spec_level e" "spec_level e \<le> 13"
    using charLevelIndex_range[of e] by (simp_all add: charLevelIndex_spec)
  have 3: "customCharacters (js ''AB'') = js ''AB''"
    by (simp add: customCharacters_eq trim_AB) (simp add: js_def)
  have ab: "js ''AB'' = [0x41, 0x42]" "js ''A'' = [0x41]" "js ''B'' = [0x42]"
    by (simp_all add: js_def)
  have "js ''AB'' \<noteq> []" by (simp add: js_def)
  from densityChar_index[OF this, of e]
  have "densityChar (js ''AB'') e = [js ''AB'' ! (nat (spec_level e) mod 2)]"
    by (simp add: charLevelIndex_spec js_def numeral_2_eq_2)
  moreover have "even (spec_level e) \<longleftrightarrow> nat (spec_level e) mod 2 = 0"
    using 2(1) by (simp add: even_nat_iff mod2_eq_if)
  moreover have "nat (spec_level e) mod 2 = 0 \<or> nat (spec_level e) mod 2 = 1" by arith
  ultimately have 4: "densityChar (js ''AB'') e = (if even (spec_level e) then js ''A'' else js ''B'')"
    unfolding ab by auto
  from 1 2 3 4 levels_attained show ?thesis by blast
qed


text \<open>
  C10. For every string the user can type, the empty and the all-blank ones included, the
  lookup of the character is in bounds: the cycle in use has at least one element (it is
  \<open>01\<close> when nothing is left after trimming, and the trimmed input otherwise), the index
  is the level modulo the length of the cycle and lies between 0 and that length minus one,
  and the character selected is an element of the cycle.
\<close>

theorem cycle_lookup_in_bounds:
  "1 \<le> length (customCharacters input)
   \<and> customCharacters input = (if trim input = [] then js ''01'' else trim input)
   \<and> (list_all isWhiteSpace input \<longrightarrow> customCharacters input = js ''01'')
   \<and> 0 \<le> charLevelIndex e mod int (length (customCharacters input))
   \<and> nat (charLevelIndex e mod int (length (customCharacters input)))
        < length (customCharacters input)
   \<and> densityChar (customCharacters input) e
        = [customCharacters input ! nat (charLevelIndex e mod int (length (customCharacters input)))]
   \<and> set (densityChar (customCharacters input) e) \<subseteq> set (customCharacters input)"
proof -
  note ne = customCharacters_nonempty[of input]
  have 1: "1 \<le> length (customCharacters input)" using ne by (cases "customCharacters input") simp_all
  have 2: "list_all isWhiteSpace input \<longrightarrow> customCharacters input = js ''01''"
    by (simp add: customCharacters_eq trim_all_white)
  have 3: "densityChar (customCharacters input) e
        = [customCharacters input ! nat (charLevelIndex e mod int (length (customCharacters input)))]"
    using ne by (simp add: densityChar_def)
  have 4: "set (densityChar (customCharacters input) e) \<subseteq> set (customCharacters input)"
    unfolding 3 using cycle_index(2)[OF ne, of e] by simp
  from 1 2 3 4 cycle_index[OF ne, of e] customCharacters_eq[of input] show ?thesis by blast
qed

theorem cycle_lookup_in_bounds_witness:
  "list_all isWhiteSpace [0x09, 0x20, 0x3000, 0x0A]
   \<and> customCharacters [0x09, 0x20, 0x3000, 0x0A] = js ''01''
   \<and> nat (charLevelIndex 200 mod int (length (customCharacters [0x09, 0x20, 0x3000, 0x0A])))
        < length (customCharacters [0x09, 0x20, 0x3000, 0x0A])"
proof -
  have h: "list_all isWhiteSpace [0x09, 0x20, 0x3000, 0x0A]"
    by (simp add: isWhiteSpace_def)
  from cycle_lookup_in_bounds[of "[0x09, 0x20, 0x3000, 0x0A]" 200] h show ?thesis by blast
qed


section \<open>Font weight\<close>

lemma weight_constants:
  "of_int MIN_WEIGHT = (300::rat)" "of_int MAX_WEIGHT = (700::rat)" "of_int WEIGHT_RANGE = (400::rat)"
  by (simp_all add: MIN_WEIGHT_def MAX_WEIGHT_def WEIGHT_RANGE_def)

lemma continuousWeight_mono:
  assumes "a \<le> b"
  shows "continuousWeight a \<le> continuousWeight b"
  unfolding continuousWeight_def weight_constants
  by (intro fadd_mono fmul_mono fdiv_mono assms) simp_all

lemma continuousWeight_ends: "continuousWeight 0 = 300" "continuousWeight 255 = 700"
  by (simp_all add: continuousWeight_def weight_constants fl_eval)

lemma continuousWeight_range:
  assumes "0 \<le> e" "e \<le> 255"
  shows "300 \<le> continuousWeight e" "continuousWeight e \<le> 700"
  using continuousWeight_mono[OF assms(1)] continuousWeight_mono[OF assms(2)]
  by (simp_all add: continuousWeight_ends)

lemma round_clamp:
  fixes c :: rat
  shows "\<lfloor>max 300 (min 700 c) + 1 / 2\<rfloor>
         = (let w = \<lfloor>c + 1 / 2\<rfloor> in if w < 300 then 300 else if 700 < w then 700 else w)"
proof -
  define w where "w = \<lfloor>c + 1 / 2\<rfloor>"
  have w: "of_int w \<le> c + 1 / 2" "c + 1 / 2 < of_int w + 1"
    unfolding w_def using floor_correct[of "c + 1 / 2"] by auto
  consider "c < 300" | "300 \<le> c" "c \<le> 700" | "700 < c" by linarith
  then have "\<lfloor>max 300 (min 700 c) + 1 / 2\<rfloor> = (if w < 300 then 300 else if 700 < w then 700 else w)"
  proof cases
    case 1
    then have m: "max 300 (min 700 c) = 300" by simp
    have "of_int w < (301::rat)" using w(1) 1 by linarith
    then have "w < 301" by (simp only: of_int_less_iff[symmetric, where ?'a = rat] of_int_numeral)
    then show ?thesis unfolding m by simp
  next
    case 2
    then have m: "max 300 (min 700 c) = c" by simp
    have "(299::rat) < of_int w" "of_int w < (701::rat)" using w 2 by linarith+
    then have "299 < w" "w < 701" by (simp_all only: of_int_less_iff[symmetric, where ?'a = rat] of_int_numeral)
    then show ?thesis unfolding m w_def[symmetric] by simp
  next
    case 3
    then have m: "max 300 (min 700 c) = 700" by simp
    have "(699::rat) < of_int w" using w(2) 3 by linarith
    then have "699 < w" by (simp only: of_int_less_iff[symmetric, where ?'a = rat] of_int_numeral)
    then show ?thesis unfolding m by simp
  qed
  then show ?thesis by (simp add: w_def Let_def)
qed

lemma finalWeight_spec: "finalWeight e = spec_weight e"
  unfolding finalWeight_def spec_weight_def Math_round_def weight_constants
  by (simp only: round_clamp continuousWeight_def weight_constants)

lemma finalWeight_range: "300 \<le> finalWeight e" "finalWeight e \<le> 700"
  unfolding finalWeight_spec spec_weight_def by (simp_all add: Let_def)

lemma finalWeight_mono:
  assumes "a \<le> b"
  shows "finalWeight a \<le> finalWeight b"
  unfolding finalWeight_def Math_round_def
  using continuousWeight_mono[OF assms] by (intro floor_mono) (simp add: max_def min_def)

lemma finalWeight_unclamped:
  assumes "0 \<le> e" "e \<le> 255"
  shows "finalWeight e = Math_round (continuousWeight e)"
  using continuousWeight_range[OF assms]
  by (simp add: finalWeight_def weight_constants max_def min_def)

text \<open>
  C5. The font weight of a cell is the rounding of \<open>300 + (effective/255) * 400\<close> clamped
  to \<open>300 .. 700\<close>: the code clamps first and rounds after, which gives the same integer.
  For an effective luminance between 0 and 255 the clamp does nothing. The weight is
  monotone: a larger luminance never has a smaller weight; it runs from 300 at luminance 0
  to 700 at luminance 255.
\<close>

theorem font_weight:
  "finalWeight e = spec_weight e
   \<and> 300 \<le> finalWeight e \<and> finalWeight e \<le> 700
   \<and> (0 \<le> e \<and> e \<le> 255 \<longrightarrow> finalWeight e = Math_round (continuousWeight e))
   \<and> (a < b \<longrightarrow> finalWeight a \<le> finalWeight b)
   \<and> finalWeight 0 = 300 \<and> finalWeight 255 = 700"
proof -
  have "finalWeight 0 = 300" "finalWeight 255 = 700"
    by (simp_all add: finalWeight_def Math_round_def continuousWeight_ends weight_constants)
  then show ?thesis
    using finalWeight_spec[of e] finalWeight_range[of e] finalWeight_unclamped[of e]
      finalWeight_mono[of a b]
    by simp
qed

theorem font_weight_witness:
  "(0 \<le> (255::rat) \<and> (255::rat) \<le> 255) \<and> finalWeight 255 = Math_round (continuousWeight 255)
   \<and> (0::rat) < 255 \<and> finalWeight 0 \<le> finalWeight 255
   \<and> finalWeight 0 = 300 \<and> finalWeight 255 = 700"
  using font_weight[of 255 0 255] by simp


section \<open>From the bytes of a pixel to its cell\<close>

lemma coefficients:
  "fl (299 / 1000) = 5386305154335113 / 18014398509481984"
  "fl (587 / 1000) = 2643612981266481 / 4503599627370496"
  "fl (114 / 1000) = 8214565720323785 / 72057594037927936"
  by (simp_all add: fl_eval)

lemma luminance_mono:
  assumes "r \<le> r'" "g \<le> g'" "b \<le> b'"
  shows "luminance r g b \<le> luminance r' g' b'"
  unfolding luminance_def coefficients
  by (intro fadd_mono2 fmul_mono_left assms) simp_all

lemma luminance_ends: "luminance 0 0 0 = 0" "luminance 255 255 255 = 255"
  by (simp_all add: luminance_def fl_eval)

lemma byte_range: "0 \<le> (of_nat (unat w) :: rat)" "(of_nat (unat w) :: rat) \<le> 255"
  for w :: "8 word"
proof -
  have "unat w < 2 ^ LENGTH(8)" by (rule unsigned_less)
  then have "unat w < 256" by simp
  then have "unat w \<le> 255" by simp
  then have "(of_nat (unat w) :: rat) \<le> of_nat 255" by (simp only: of_nat_le_iff)
  then show "(of_nat (unat w) :: rat) \<le> 255" by simp
  show "0 \<le> (of_nat (unat w) :: rat)" by (rule of_nat_0_le_iff)
qed

lemma luminance_range:
  assumes "0 \<le> r" "r \<le> 255" "0 \<le> g" "g \<le> 255" "0 \<le> b" "b \<le> 255"
  shows "0 \<le> luminance r g b" "luminance r g b \<le> 255"
  using luminance_mono[of 0 r 0 g 0 b] luminance_mono[of r 255 g 255 b 255] assms
  by (simp_all add: luminance_ends)

lemma effective_range:
  assumes "0 \<le> l" "l \<le> 255"
  shows "0 \<le> effectiveLuminance invert l" "effectiveLuminance invert l \<le> 255"
proof -
  have "fl 0 \<le> fl (255 - l)" "fl (255 - l) \<le> fl 255"
    using assms by (intro fl_mono; simp)+
  moreover have "fl 255 = 255" using fl_of_int[of 255] by simp
  ultimately show "0 \<le> effectiveLuminance invert l" "effectiveLuminance invert l \<le> 255"
    using assms by (simp_all add: effectiveLuminance_def fsub_def)
qed

lemma luminance_accuracy:
  assumes "0 \<le> r" "r \<le> 255" "0 \<le> g" "g \<le> 255" "0 \<le> b" "b \<le> 255"
  shows "\<bar>luminance r g b - (299 * r + 587 * g + 114 * b) / 1000\<bar> \<le> 1 / 2 ^ 42"
proof -
  define c1 c2 c3 :: rat where "c1 = 5386305154335113 / 18014398509481984"
    and "c2 = 2643612981266481 / 4503599627370496"
    and "c3 = 8214565720323785 / 72057594037927936"
  define A B C where "A = c1 * r" and "B = c2 * g" and "C = c3 * b"
  define p1 p2 p3 where "p1 = fl A" and "p2 = fl B" and "p3 = fl C"
  define s where "s = fl (p1 + p2)"
  define L where "L = fl (s + p3)"
  define N :: rat where "N = 9007199254740992"
  have N: "(2::rat) ^ 53 = N" by (simp add: N_def)
  have N0: "0 < N" by (simp add: N_def)
  have L: "luminance r g b = L"
    unfolding luminance_def coefficients fadd_def fmul_def L_def s_def p1_def p2_def p3_def
      A_def B_def C_def c1_def c2_def c3_def by (rule refl)
  have c: "0 \<le> c1" "0 \<le> c2" "0 \<le> c3" by (simp_all add: c1_def c2_def c3_def)
  have q: "0 \<le> A" "0 \<le> B" "0 \<le> C"
    unfolding A_def B_def C_def using assms c by (simp_all add: mult_nonneg_nonneg)
  have "A \<le> c1 * 255" "B \<le> c2 * 255" "C \<le> c3 * 255"
    unfolding A_def B_def C_def using assms c by (simp_all add: mult_left_mono)
  then have u: "A \<le> 77" "B \<le> 150" "C \<le> 30"
    by (simp_all add: c1_def c2_def c3_def)
  have d: "\<bar>c1 - 299 / 1000\<bar> \<le> 1 / N" "\<bar>c2 - 587 / 1000\<bar> \<le> 1 / N"
    "\<bar>c3 - 114 / 1000\<bar> \<le> 1 / N"
    by (simp_all add: c1_def c2_def c3_def N_def)
  have x1: "\<bar>A - 299 / 1000 * r\<bar> \<le> 255 / N"
  proof -
    have "\<bar>A - 299 / 1000 * r\<bar> = \<bar>c1 - 299 / 1000\<bar> * \<bar>r\<bar>"
      unfolding A_def abs_mult[symmetric] by (simp add: algebra_simps)
    also have "\<dots> \<le> 1 / N * 255"
      using d(1) assms N0 by (intro mult_mono) simp_all
    finally show ?thesis by simp
  qed
  have x2: "\<bar>B - 587 / 1000 * g\<bar> \<le> 255 / N"
  proof -
    have "\<bar>B - 587 / 1000 * g\<bar> = \<bar>c2 - 587 / 1000\<bar> * \<bar>g\<bar>"
      unfolding B_def abs_mult[symmetric] by (simp add: algebra_simps)
    also have "\<dots> \<le> 1 / N * 255"
      using d(2) assms N0 by (intro mult_mono) simp_all
    finally show ?thesis by simp
  qed
  have x3: "\<bar>C - 114 / 1000 * b\<bar> \<le> 255 / N"
  proof -
    have "\<bar>C - 114 / 1000 * b\<bar> = \<bar>c3 - 114 / 1000\<bar> * \<bar>b\<bar>"
      unfolding C_def abs_mult[symmetric] by (simp add: algebra_simps)
    also have "\<dots> \<le> 1 / N * 255"
      using d(3) assms N0 by (intro mult_mono) simp_all
    finally show ?thesis by simp
  qed
  have e1: "\<bar>p1 - A\<bar> \<le> 77 / N" "\<bar>p2 - B\<bar> \<le> 150 / N" "\<bar>p3 - C\<bar> \<le> 30 / N"
  proof -
    have "\<bar>p1 - A\<bar> \<le> A / N" "\<bar>p2 - B\<bar> \<le> B / N" "\<bar>p3 - C\<bar> \<le> C / N"
      using fl_error[of A] fl_error[of B] fl_error[of C] q
      unfolding p1_def p2_def p3_def N by simp_all
    moreover have "A / N \<le> 77 / N" "B / N \<le> 150 / N" "C / N \<le> 30 / N"
      using u N0 by (simp_all add: divide_right_mono)
    ultimately show "\<bar>p1 - A\<bar> \<le> 77 / N" "\<bar>p2 - B\<bar> \<le> 150 / N" "\<bar>p3 - C\<bar> \<le> 30 / N"
      by linarith+
  qed
  have n1: "77 / N \<le> 1" "150 / N \<le> 1" "30 / N \<le> 1" "229 / N \<le> 1"
    by (simp_all add: N_def)
  have p: "0 \<le> p1" "0 \<le> p2" "0 \<le> p3"
    using q by (simp_all add: p1_def p2_def p3_def fl_nonneg)
  have p12: "p1 + p2 \<le> 229" using e1[unfolded abs_le_iff] u n1 by linarith
  have e4: "\<bar>s - (p1 + p2)\<bar> \<le> 229 / N"
  proof -
    have "\<bar>s - (p1 + p2)\<bar> \<le> (p1 + p2) / N"
      using fl_error[of "p1 + p2"] p unfolding s_def N by simp
    also have "\<dots> \<le> 229 / N" using p12 N0 by (simp add: divide_right_mono)
    finally show ?thesis .
  qed
  have s0: "0 \<le> s" using p by (simp add: s_def fl_nonneg)
  have sp: "s + p3 \<le> 261"
    using e4[unfolded abs_le_iff] e1[unfolded abs_le_iff] u n1 p12 by linarith
  have e5: "\<bar>L - (s + p3)\<bar> \<le> 261 / N"
  proof -
    have "\<bar>L - (s + p3)\<bar> \<le> (s + p3) / N"
      using fl_error[of "s + p3"] p s0 unfolding L_def N by simp
    also have "\<dots> \<le> 261 / N" using sp N0 by (simp add: divide_right_mono)
    finally show ?thesis .
  qed
  note b = x1[unfolded abs_le_iff] x2[unfolded abs_le_iff] x3[unfolded abs_le_iff]
    e1[unfolded abs_le_iff] e4[unfolded abs_le_iff] e5[unfolded abs_le_iff]
  have "L - (299 / 1000 * r + 587 / 1000 * g + 114 / 1000 * b)
          \<le> 255 / N + 255 / N + 255 / N + 77 / N + 150 / N + 30 / N + 229 / N + 261 / N"
    using b by linarith
  moreover have "- (L - (299 / 1000 * r + 587 / 1000 * g + 114 / 1000 * b))
          \<le> 255 / N + 255 / N + 255 / N + 77 / N + 150 / N + 30 / N + 229 / N + 261 / N"
    using b by linarith
  ultimately have "\<bar>L - (299 / 1000 * r + 587 / 1000 * g + 114 / 1000 * b)\<bar>
          \<le> 255 / N + 255 / N + 255 / N + 77 / N + 150 / N + 30 / N + 229 / N + 261 / N"
    by (simp only: abs_le_iff)
  also have "\<dots> = 1512 / N" by simp
  finally have "\<bar>L - (299 / 1000 * r + 587 / 1000 * g + 114 / 1000 * b)\<bar> \<le> 1512 / N" .
  moreover have "1512 / N \<le> 1 / 2 ^ 42" by (simp add: N_def)
  ultimately have "\<bar>L - (299 / 1000 * r + 587 / 1000 * g + 114 / 1000 * b)\<bar> \<le> 1 / 2 ^ 42"
    by (rule order_trans)
  moreover have "(299 * r + 587 * g + 114 * b) / 1000
      = 299 / 1000 * r + 587 / 1000 * g + 114 / 1000 * b"
    by simp
  ultimately show ?thesis unfolding L by (simp only:)
qed

lemma luminance_representable: "fl (luminance r g b) = luminance r g b"
  by (simp add: luminance_def fadd_def)

lemma readByte_in:
  assumes "0 \<le> i" "nat i + k < length data"
  shows "readByte data (i + int k) = Some (of_nat (unat (data ! (nat i + k))))"
  using assms by (simp add: readByte_def nat_add_distrib)

lemma cell_of_pixel:
  assumes "0 \<le> i" "nat i + 2 < length data"
  shows "cellHtml cs invert data i =
     span cs (effectiveLuminance invert
       (luminance (of_nat (unat (data ! nat i))) (of_nat (unat (data ! (nat i + 1))))
          (of_nat (unat (data ! (nat i + 2))))))"
proof -
  have "readByte data i = Some (of_nat (unat (data ! nat i)))"
    using readByte_in[OF assms(1), of 0 data] assms(2) by simp
  moreover have "readByte data (i + 1) = Some (of_nat (unat (data ! (nat i + 1))))"
    using readByte_in[OF assms(1), of 1 data] assms(2) by simp
  moreover have "readByte data (i + 2) = Some (of_nat (unat (data ! (nat i + 2))))"
    using readByte_in[OF assms(1), of 2 data] assms(2) by simp
  ultimately show ?thesis by (simp add: cellHtml_def)
qed

lemma cell_alpha:
  assumes "0 \<le> i"
  shows "cellHtml cs invert (data[nat i + 3 := a]) i = cellHtml cs invert data i"
proof -
  have "readByte (data[nat i + 3 := a]) i = readByte data i"
    "readByte (data[nat i + 3 := a]) (i + 1) = readByte data (i + 1)"
    "readByte (data[nat i + 3 := a]) (i + 2) = readByte data (i + 2)"
    using assms by (simp_all add: readByte_def nat_add_distrib)
  then show ?thesis by (simp add: cellHtml_def)
qed


subsection \<open>A grey pixel\<close>

lemma luminance_grey: "luminance 128 128 128 = 9007199254740991 / 70368744177664"
  by (simp add: luminance_def fl_eval)

lemma opacity_grey:
  "opacity (9007199254740991 / 70368744177664) = 282578800148737 / 562949953421312"
  by (simp add: opacity_def fl_eval)

lemma weight_grey:
  "continuousWeight (9007199254740991 / 70368744177664) = 2202472703796003 / 4398046511104"
  by (simp add: continuousWeight_def MIN_WEIGHT_def MAX_WEIGHT_def WEIGHT_RANGE_def fl_eval)

lemma level_grey: "fdiv (9007199254740991 / 70368744177664) CHAR_LEVEL_SIZE = 7"
  by (simp add: CHAR_LEVEL_SIZE_def NUM_CHAR_LEVELS_def fl_eval)

lemma showNat_examples: "showNat 502 = js ''502''" "showNat 501 = js ''501''"
  by (simp_all add: showNat.simps js_def)

lemma grey_parts:
  "toFixed3 (opacity (9007199254740991 / 70368744177664)) = js ''0.502''"
  "showInt (finalWeight (9007199254740991 / 70368744177664)) = js ''501''"
  "densityChar (js ''01'') (9007199254740991 / 70368744177664) = js ''1''"
proof -
  have n: "nat \<lfloor>\<bar>282578800148737 / 562949953421312 :: rat\<bar> * 1000 + 1 / 2\<rfloor> = 502"
    by simp
  show "toFixed3 (opacity (9007199254740991 / 70368744177664)) = js ''0.502''"
    unfolding opacity_grey toFixed3_def Let_def n showNat_examples by (simp add: js_def)
  have "finalWeight (9007199254740991 / 70368744177664) = 501"
    unfolding finalWeight_def weight_grey by (simp add: Math_round_def MIN_WEIGHT_def MAX_WEIGHT_def)
  then show "showInt (finalWeight (9007199254740991 / 70368744177664)) = js ''501''"
    by (simp add: showInt_def showNat_examples)
  have "charLevelIndex (9007199254740991 / 70368744177664) = 7"
    unfolding charLevelIndex_def level_grey by (simp add: Math_floor_def NUM_CHAR_LEVELS_def)
  then show "densityChar (js ''01'') (9007199254740991 / 70368744177664) = js ''1''"
    by (simp add: densityChar_def js_def)
qed

lemma customCharacters_default: "customCharacters (js ''01'') = js ''01''"
  by (simp add: customCharacters_def trim_def isWhiteSpace_def js_def)

lemma cell_grey:
  \<open>cellHtml (js ''01'') False [128, 128, 128, 255] 0
     = js ''<span style="opacity: 0.502; font-weight: 501;">1</span>''\<close>
proof -
  have "cellHtml (js ''01'') False [128, 128, 128, 255] 0
          = span (js ''01'') (luminance 128 128 128)"
    by (simp add: cellHtml_def readByte_def effectiveLuminance_def)
  also have \<open>\<dots> = js ''<span style="opacity: 0.502; font-weight: 501;">1</span>''\<close>
    unfolding luminance_grey span_def grey_parts by (simp add: js_def)
  finally show ?thesis .
qed

lemma grey_complement: "fl (255 - luminance 128 128 128) = 255 - luminance 128 128 128"
  unfolding luminance_grey by (simp add: fl_eval)

text \<open>
  C7. A cell is computed from the red, green and blue bytes of its pixel and from nothing
  else: the alpha byte can be changed without changing the cell. The luminance is
  \<open>0.299 * r + 0.587 * g + 0.114 * b\<close> in the arithmetic of the program, within
  \<open>2 ^ - 42\<close> of the exact value of that sum, and between 0 and 255. The effective luminance
  is \<open>255 - luminance\<close> when the inversion is on and the luminance itself when it is off,
  and it is between 0 and 255 as well.
\<close>

theorem pixel_luminance:
  assumes "0 \<le> i" "nat i + 2 < length data"
    "r = of_nat (unat (data ! nat i))" "g = of_nat (unat (data ! (nat i + 1)))"
    "b = of_nat (unat (data ! (nat i + 2)))"
  shows "cellHtml cs invert data i = span cs (effectiveLuminance invert (luminance r g b))
    \<and> cellHtml cs invert (data[nat i + 3 := a]) i = cellHtml cs invert data i
    \<and> luminance r g b =
         fadd (fadd (fmul (fl (299 / 1000)) r) (fmul (fl (587 / 1000)) g)) (fmul (fl (114 / 1000)) b)
    \<and> \<bar>luminance r g b - (299 * r + 587 * g + 114 * b) / 1000\<bar> \<le> 1 / 2 ^ 42
    \<and> 0 \<le> luminance r g b \<and> luminance r g b \<le> 255
    \<and> effectiveLuminance True (luminance r g b) = fsub 255 (luminance r g b)
    \<and> effectiveLuminance False (luminance r g b) = luminance r g b
    \<and> 0 \<le> effectiveLuminance invert (luminance r g b)
    \<and> effectiveLuminance invert (luminance r g b) \<le> 255"
proof -
  have rgb: "0 \<le> r" "r \<le> 255" "0 \<le> g" "g \<le> 255" "0 \<le> b" "b \<le> 255"
    unfolding assms(3-5) by (rule byte_range)+
  note l = luminance_range[OF rgb]
  from cell_of_pixel[OF assms(1,2), of cs invert] cell_alpha[OF assms(1), of cs invert data a]
    luminance_accuracy[OF rgb] l effective_range[OF l, of invert]
  show ?thesis
    unfolding assms(3-5) by (simp add: effectiveLuminance_def luminance_def)
qed

theorem pixel_luminance_witness:
  \<open>(0::int) \<le> 0 \<and> nat 0 + 2 < length [128, 128, 128, 255 :: 8 word]
   \<and> (128::rat) = of_nat (unat ([128, 128, 128, 255 :: 8 word] ! nat 0))
   \<and> (128::rat) = of_nat (unat ([128, 128, 128, 255 :: 8 word] ! (nat 0 + 1)))
   \<and> (128::rat) = of_nat (unat ([128, 128, 128, 255 :: 8 word] ! (nat 0 + 2)))
   \<and> cellHtml (js ''01'') False [128, 128, 128, 255] 0
        = span (js ''01'') (effectiveLuminance False (luminance 128 128 128))
   \<and> cellHtml (js ''01'') False ([128, 128, 128, 255][nat 0 + 3 := 0]) 0
        = cellHtml (js ''01'') False [128, 128, 128, 255] 0
   \<and> luminance 128 128 128 = 9007199254740991 / 70368744177664
   \<and> cellHtml (js ''01'') False [128, 128, 128, 255] 0
        = js ''<span style="opacity: 0.502; font-weight: 501;">1</span>''\<close>
proof -
  have h: "(0::int) \<le> 0" "nat 0 + 2 < length [128, 128, 128, 255 :: 8 word]"
    "(128::rat) = of_nat (unat ([128, 128, 128, 255 :: 8 word] ! nat 0))"
    "(128::rat) = of_nat (unat ([128, 128, 128, 255 :: 8 word] ! (nat 0 + 1)))"
    "(128::rat) = of_nat (unat ([128, 128, 128, 255 :: 8 word] ! (nat 0 + 2)))"
    by simp_all
  from pixel_luminance[OF h, of "js ''01''" False 0] h luminance_grey cell_grey
  show ?thesis by blast
qed


text \<open>
  C9. For a luminance \<open>x\<close> (a number of the program) and any character cycle, the cell made
  from \<open>x\<close> with the inversion off is the cell made from the luminance \<open>255 - x\<close> with the
  inversion on. Every luminance the program computes is such a number. Here \<open>255 - x\<close> is
  the exact difference.
\<close>

theorem invert_symmetry:
  assumes "fl x = x"
  shows "effectiveLuminance True (255 - x) = effectiveLuminance False x
    \<and> span cs (effectiveLuminance True (255 - x)) = span cs (effectiveLuminance False x)
    \<and> fl (luminance r g b) = luminance r g b"
  using assms by (simp add: effectiveLuminance_def fsub_def luminance_representable)

theorem invert_symmetry_witness:
  "fl (luminance 128 128 128) = luminance 128 128 128
   \<and> fl (255 - luminance 128 128 128) = 255 - luminance 128 128 128
   \<and> span (js ''01'') (effectiveLuminance True (255 - luminance 128 128 128))
     = span (js ''01'') (effectiveLuminance False (luminance 128 128 128))"
  using invert_symmetry[OF luminance_representable, of 128 128 128 "js ''01''"]
    luminance_representable[of 128 128 128] grey_complement
  by blast


text \<open>
  When \<open>255 - x\<close> is not a number of the program, the nearest one is a different luminance,
  and inverting it need not give \<open>x\<close> back: at \<open>x = 18.285714285714285\<close>, which is
  \<^verbatim>\<open>256 / 14\<close>, the level of \<open>x\<close> is 1 and the level after the two subtractions is 0.
\<close>

lemma complement_rounded:
  "charLevelIndex (effectiveLuminance False (2573485501354569 / 140737488355328)) = 1"
  "fsub 255 (2573485501354569 / 140737488355328) \<noteq> 255 - 2573485501354569 / 140737488355328"
  "charLevelIndex (effectiveLuminance True (fsub 255 (2573485501354569 / 140737488355328))) = 0"
  by (simp_all add: charLevelIndex_def effectiveLuminance_def CHAR_LEVEL_SIZE_def
      NUM_CHAR_LEVELS_def Math_floor_def fl_eval)


section \<open>Opacity\<close>

lemma tenth: "fl (1 / 10) = 3602879701896397 / 36028797018963968"
  by (simp add: fl_eval)

lemma opacity_ge: "1 / 10 \<le> opacity e"
proof -
  have "(1 / 10 :: rat) \<le> fl (1 / 10)" unfolding tenth by simp
  then show ?thesis unfolding opacity_def by simp
qed

lemma opacity_le_one:
  assumes "e \<le> 255"
  shows "opacity e \<le> 1"
proof -
  have "fdiv e 255 \<le> fdiv 255 255" using assms by (intro fdiv_mono) simp_all
  also have "fdiv 255 255 = 1" by (simp add: fl_eval)
  finally show ?thesis unfolding opacity_def tenth by simp
qed

lemma opacity_dark:
  assumes "e \<le> 51 / 2"
  shows "opacity e = fl (1 / 10)"
proof -
  have "fdiv e 255 \<le> fdiv (51 / 2) 255" using assms by (intro fdiv_mono) simp_all
  also have "fdiv (51 / 2) 255 = fl (1 / 10)" by (simp add: fdiv_def)
  finally show ?thesis unfolding opacity_def by simp
qed

lemma opacity_printed: "100 \<le> \<lfloor>\<bar>opacity e\<bar> * 1000 + 1 / 2\<rfloor>"
proof -
  have "0 \<le> opacity e" using opacity_ge[of e] by simp
  then have "(of_int 100 :: rat) \<le> \<bar>opacity e\<bar> * 1000 + 1 / 2" using opacity_ge[of e] by simp
  then show ?thesis by (simp only: le_floor_iff)
qed

lemma grid_in_range:
  assumes "0 \<le> x" "x < res" "0 \<le> y" "y < h" "length data = nat (4 * res * h)"
  shows "0 \<le> (y * res + x) * 4" "nat ((y * res + x) * 4) + 3 < length data"
proof -
  have r: "0 < res" using assms(1,2) by simp
  have "y * res \<le> (h - 1) * res" using assms(4) r by (intro mult_right_mono) simp_all
  then have "y * res + x \<le> h * res - 1" using assms(2) by (simp add: left_diff_distrib)
  then have b: "(y * res + x) * 4 + 3 < 4 * res * h" by (simp add: mult.commute)
  have y: "0 \<le> y * res" using assms(3) r by simp
  then show i: "0 \<le> (y * res + x) * 4" using assms(1) by simp
  from b i show "nat ((y * res + x) * 4) + 3 < length data"
    unfolding assms(5) by (simp add: nat_less_iff nat_add_distrib)
qed

text \<open>
  C6. The opacity of a cell is the larger of \<open>0.1\<close> and \<open>effective/255\<close>. It is never
  below one tenth, and neither is the number that \<^verbatim>\<open>toFixed(3)\<close> prints into the cell; it is at
  most 1 for a luminance up to 255, and it is the floor \<open>0.1\<close> itself for a luminance up
  to 25.5. When the array read from the canvas has its four bytes for each position of the
  grid, every cell of the grid is a span with such an opacity.
\<close>

theorem opacity_floor:
  "opacity e = max (fl (1 / 10)) (fdiv e 255)
   \<and> 1 / 10 \<le> opacity e
   \<and> 100 \<le> \<lfloor>\<bar>opacity e\<bar> * 1000 + 1 / 2\<rfloor>
   \<and> (e \<le> 255 \<longrightarrow> opacity e \<le> 1)
   \<and> (e \<le> 51 / 2 \<longrightarrow> opacity e = fl (1 / 10))
   \<and> (0 \<le> x \<and> x < res \<and> 0 \<le> y \<and> y < h \<and> length data = nat (4 * res * h) \<longrightarrow>
        (\<exists>l. cellHtml cs invert data ((y * res + x) * 4) = span cs l \<and> 1 / 10 \<le> opacity l))"
proof -
  have "\<exists>l. cellHtml cs invert data ((y * res + x) * 4) = span cs l \<and> 1 / 10 \<le> opacity l"
    if g: "0 \<le> x" "x < res" "0 \<le> y" "y < h" "length data = nat (4 * res * h)"
  proof -
    from grid_in_range[OF g] have "0 \<le> (y * res + x) * 4"
      "nat ((y * res + x) * 4) + 2 < length data" by simp_all
    from cell_of_pixel[OF this, of cs invert] opacity_ge show ?thesis by blast
  qed
  then show ?thesis
    using opacity_ge[of e] opacity_printed[of e] opacity_le_one[of e] opacity_dark[of e]
    by (simp add: opacity_def)
qed

theorem opacity_floor_witness:
  "(10::rat) \<le> 255 \<and> opacity 10 \<le> 1 \<and> (10::rat) \<le> 51 / 2 \<and> opacity 10 = fl (1 / 10)
   \<and> (0::int) \<le> 0 \<and> (0::int) < 1 \<and> length [128, 128, 128, 255 :: 8 word] = nat (4 * 1 * 1)
   \<and> (\<exists>l. cellHtml (js ''01'') False [128, 128, 128, 255] ((0 * 1 + 0) * 4) = span (js ''01'') l
          \<and> 1 / 10 \<le> opacity l)"
proof -
  have h: "(10::rat) \<le> 255" "(10::rat) \<le> 51 / 2" "(0::int) \<le> 0" "(0::int) < 1"
    "length [128, 128, 128, 255 :: 8 word] = nat (4 * 1 * 1)"
    by simp_all
  from opacity_floor[of 10 0 1 0 1 "[128, 128, 128, 255]" "js ''01''" False] h
  show ?thesis by blast
qed

section \<open>The height of the grid\<close>

text \<open>
  The height is the floor of a product that has been rounded three times: the quotient
  \<open>H / W\<close>, its product with the width, and the product of that with the rounded factor
  \<open>0.55\<close>. Each rounding is off by at most the fraction \<open>2 ^ - 53\<close> of what it rounds, so
  the product is within the fraction \<open>5 / 2 ^ 53\<close> of the exact value
  \<open>11 * targetWidth * H / (20 * W)\<close>. As long as \<open>55 * targetWidth * H < 2 ^ 53\<close> that is
  less than \<open>1 / (20 * W)\<close>, the least distance of an exact value that is not whole from a
  whole number: then the floor is that of the exact value. If the exact value is whole,
  the floor is that number or one less.
\<close>

lemma fl_relative:
  assumes "0 \<le> x"
  shows "x * (1 - 1 / 2 ^ 53) \<le> fl x" "fl x \<le> x * (1 + 1 / 2 ^ 53)"
proof -
  have "\<bar>fl x - x\<bar> \<le> x / 2 ^ 53" using fl_error[of x] assms by simp
  then have "fl x - x \<le> x / 2 ^ 53" "- (fl x - x) \<le> x / 2 ^ 53"
    by (simp_all only: abs_le_iff)
  then show "x * (1 - 1 / 2 ^ 53) \<le> fl x" "fl x \<le> x * (1 + 1 / 2 ^ 53)"
    by (simp_all add: algebra_simps)
qed

lemma factor_value: "fl (55 / 100) = 2476979795053773 / 4503599627370496"
  by (simp add: fl_eval)

lemma height_error:
  fixes res :: int and W H :: nat
  assumes "0 \<le> res"
  defines "v \<equiv> (of_int res :: rat) * (of_nat H / of_nat W) * (55 / 100)"
    and "F \<equiv> fmul (fmul (of_int res) (fdiv (of_nat H) (of_nat W))) (fl (55 / 100))"
  shows "v * (1 - 5 / 2 ^ 53) \<le> F" "F \<le> v * (1 + 5 / 2 ^ 53)"
proof -
  define k m :: rat where "k = 1 + 1 / 2 ^ 53" and "m = 1 - 1 / 2 ^ 53"
  define r :: rat where "r = of_int res"
  define a :: rat where "a = of_nat H / of_nat W"
  define A where "A = fl a"
  define B where "B = fl (r * A)"
  define C :: rat where "C = fl (55 / 100)"
  have km: "0 \<le> k" "0 \<le> m" by (simp_all add: k_def m_def)
  have r: "0 \<le> r" using assms(1) by (simp add: r_def)
  have a: "0 \<le> a" by (simp add: a_def)
  have A0: "0 \<le> A" unfolding A_def using a by (rule fl_nonneg)
  have A: "a * m \<le> A" "A \<le> a * k"
    unfolding A_def m_def k_def using fl_relative[OF a] by simp_all
  have rA: "0 \<le> r * A" using r A0 by simp
  have B0: "0 \<le> B" unfolding B_def using rA by (rule fl_nonneg)
  have B1: "r * A * m \<le> B" "B \<le> r * A * k"
    unfolding B_def m_def k_def using fl_relative[OF rA] by simp_all
  have "r * (a * m) * m \<le> r * A * m"
    using A(1) r km by (intro mult_right_mono mult_left_mono) simp_all
  with B1(1) have Bl: "r * a * m * m \<le> B" by (simp add: mult.assoc)
  have "r * A * k \<le> r * (a * k) * k"
    using A(2) r km by (intro mult_right_mono mult_left_mono) simp_all
  with B1(2) have Bu: "B \<le> r * a * k * k" by (simp add: mult.assoc)
  have C0: "0 \<le> C" unfolding C_def factor_value by simp
  have C: "55 / 100 * m \<le> C" "C \<le> 55 / 100 * k"
    unfolding C_def factor_value by (simp_all add: m_def k_def)
  have d0: "0 \<le> B * C" using B0 C0 by simp
  have F: "F = fl (B * C)"
    by (simp add: F_def fmul_def fdiv_def B_def A_def C_def r_def a_def)
  have F1: "B * C * m \<le> F" "F \<le> B * C * k"
    unfolding F m_def k_def using fl_relative[OF d0] by simp_all
  have ram: "0 \<le> r * a * m * m" using r a km by simp
  have "(r * a * m * m) * (55 / 100 * m) \<le> B * C"
    using Bl C(1) ram km by (intro mult_mono) simp_all
  then have "(r * a * m * m) * (55 / 100 * m) * m \<le> B * C * m"
    using km by (intro mult_right_mono) simp_all
  with F1(1) have lo: "r * a * (55 / 100) * m ^ 4 \<le> F"
    by (simp add: power4_eq_xxxx mult_ac)
  have "B * C \<le> (r * a * k * k) * (55 / 100 * k)"
    using Bu C(2) B0 C0 km by (intro mult_mono) simp_all
  then have "B * C * k \<le> (r * a * k * k) * (55 / 100 * k) * k"
    using km by (intro mult_right_mono) simp_all
  with F1(2) have hi: "F \<le> r * a * (55 / 100) * k ^ 4"
    by (simp add: power4_eq_xxxx mult_ac)
  have v: "v = r * a * (55 / 100)" by (simp add: v_def r_def a_def)
  have v0: "0 \<le> v" unfolding v using r a by simp
  have "k ^ 4 \<le> 1 + 5 / 2 ^ 53" "1 - 5 / 2 ^ 53 \<le> m ^ 4"
    by (simp_all add: k_def m_def power4_eq_xxxx)
  then have "v * k ^ 4 \<le> v * (1 + 5 / 2 ^ 53)" "v * (1 - 5 / 2 ^ 53) \<le> v * m ^ 4"
    using v0 by (simp_all only: mult_left_mono)
  with lo hi show "v * (1 - 5 / 2 ^ 53) \<le> F" "F \<le> v * (1 + 5 / 2 ^ 53)"
    unfolding v by linarith+
qed

lemma height_floor:
  fixes res :: int and W H :: nat
  assumes "0 \<le> res" "0 < W" "55 * res * int H < 2 ^ 53"
  defines "h \<equiv> \<lfloor>fmul (fmul (of_int res) (fdiv (of_nat H) (of_nat W))) (fl (55 / 100))\<rfloor>"
  shows "spec_targetHeight res W H - 1 \<le> h" "h \<le> spec_targetHeight res W H"
    "\<not> 20 * int W dvd 11 * res * int H \<Longrightarrow> h = spec_targetHeight res W H"
    "spec_targetHeight res W H = (11 * res * int H) div (20 * int W)"
proof -
  define F where "F = fmul (fmul (of_int res) (fdiv (of_nat H) (of_nat W))) (fl (55 / 100))"
  define v :: rat where "v = of_int res * (of_nat H / of_nat W) * (55 / 100)"
  define p q where "p = 11 * res * int H" and "q = 20 * int W"
  define n t where "n = p div q" and "t = p mod q"
  have q: "0 < q" using assms(2) by (simp add: q_def)
  have p: "0 \<le> p" using assms(1) by (simp add: p_def)
  have t: "0 \<le> t" "t < q" using q by (simp_all add: t_def)
  have pq: "p = q * n + t" by (simp add: n_def t_def)
  have Q: "(0::rat) < of_int q" using q by simp
  have v: "v = of_int p / of_int q"
    using assms(2) by (simp add: v_def p_def q_def)
  have vn: "v = of_int n + of_int t / of_int q"
    unfolding v pq using Q by (simp add: field_simps)
  have e: "spec_targetHeight res W H = n"
    unfolding spec_targetHeight_def v_def[symmetric] v n_def by (rule floor_divide_of_int_eq)
  have v0: "0 \<le> v" unfolding v using p Q by simp
  have "5 * (of_int p :: rat) < 2 ^ 53"
  proof -
    have "5 * p < 2 ^ 53" using assms(3) by (simp add: p_def)
    then have "(of_int (5 * p) :: rat) < of_int (2 ^ 53)" by (simp only: of_int_less_iff)
    then show ?thesis by simp
  qed
  then have "5 * (of_int p :: rat) / 2 ^ 53 < 1" by simp
  then have "5 * (of_int p :: rat) / 2 ^ 53 / of_int q < 1 / of_int q"
    using Q by (simp only: divide_strict_right_mono)
  then have small: "v * (5 / 2 ^ 53) < 1 / of_int q" unfolding v by (simp add: field_simps)
  from height_error[OF assms(1), of H W]
  have "v * (1 - 5 / 2 ^ 53) \<le> F" "F \<le> v * (1 + 5 / 2 ^ 53)"
    by (simp_all add: v_def F_def)
  then have "v - v * (5 / 2 ^ 53) \<le> F" "F \<le> v + v * (5 / 2 ^ 53)"
    by (simp_all add: algebra_simps)
  with small have b: "v - 1 / of_int q < F" "F < v + 1 / of_int q" by linarith+
  have tq: "of_int t / (of_int q :: rat) + 1 / of_int q \<le> 1"
  proof -
    have "t + 1 \<le> q" using t by simp
    then have "(of_int (t + 1) :: rat) \<le> of_int q" by (simp only: of_int_le_iff)
    then have "(of_int (t + 1) :: rat) / of_int q \<le> 1" using Q by simp
    then show ?thesis by (simp add: add_divide_distrib)
  qed
  have q1: "1 / (of_int q :: rat) \<le> 1"
  proof -
    have "1 \<le> q" using q by simp
    then have "(of_int 1 :: rat) \<le> of_int q" by (simp only: of_int_le_iff)
    then show ?thesis using Q by simp
  qed
  have t0: "0 \<le> of_int t / (of_int q :: rat)" using t Q by simp
  have hF: "h = \<lfloor>F\<rfloor>" by (simp add: h_def F_def)
  have "F < of_int (n + 1)" using b(2) tq unfolding vn by simp
  then have "\<lfloor>F\<rfloor> < n + 1" by (simp only: floor_less_iff)
  then show "h \<le> spec_targetHeight res W H" unfolding e hF by simp
  have "of_int (n - 1) \<le> F" using b(1) q1 t0 unfolding vn by simp
  then have "n - 1 \<le> \<lfloor>F\<rfloor>" by (simp only: le_floor_iff)
  then show "spec_targetHeight res W H - 1 \<le> h" unfolding e hF .
  show "spec_targetHeight res W H = (11 * res * int H) div (20 * int W)"
    unfolding e n_def p_def q_def ..
  show "h = spec_targetHeight res W H" if nd: "\<not> 20 * int W dvd 11 * res * int H"
  proof -
    have "t \<noteq> 0" using nd unfolding t_def p_def q_def by (simp add: dvd_eq_mod_eq_0)
    with t have "1 \<le> t" by simp
    then have "(of_int 1 :: rat) \<le> of_int t" by (simp only: of_int_le_iff)
    then have "1 / (of_int q :: rat) \<le> of_int t / of_int q"
      using Q by (simp add: divide_right_mono)
    then have "of_int n \<le> F" using b(1) unfolding vn by simp
    then have "n \<le> \<lfloor>F\<rfloor>" by (simp only: le_floor_iff)
    with \<open>\<lfloor>F\<rfloor> < n + 1\<close> show ?thesis unfolding e hF by simp
  qed
qed


section \<open>A run of the generator\<close>

lemma innerLoop_upto:
  "innerLoop cs invert data res y x out =
     out @ concat (map (\<lambda>x. cellHtml cs invert data ((y * res + x) * 4)) [x..res - 1])"
proof (induction cs invert data res y x out rule: innerLoop.induct)
  case (1 cs invert data res y x out)
  show ?case
  proof (cases "x < res")
    case True
    then have u: "[x..res - 1] = x # [x + 1..res - 1]" by (simp add: upto_rec1)
    show ?thesis
      using True "1.IH"[OF True] by (subst innerLoop.simps) (simp add: u)
  next
    case False
    then show ?thesis by (subst innerLoop.simps) simp
  qed
qed

lemma innerLoop_row:
  "innerLoop cs invert data res y 0 out @ [0x0A] = out @ rowHtml cs invert data res y"
  by (simp add: innerLoop_upto rowHtml_def)

lemma outerLoop_upto:
  "outerLoop cs invert data res h y out =
     out @ concat (map (rowHtml cs invert data res) [y..h - 1])"
proof (induction cs invert data res h y out rule: outerLoop.induct)
  case (1 cs invert data res h y out)
  show ?case
  proof (cases "y < h")
    case True
    then have u: "[y..h - 1] = y # [y + 1..h - 1]" by (simp add: upto_rec1)
    show ?thesis
      using True "1.IH"[OF True]
      by (subst outerLoop.simps) (simp add: u innerLoop_row)
  next
    case False
    then show ?thesis by (subst outerLoop.simps) simp
  qed
qed

lemma loops_rows:
  "loops cs invert data res h =
     (case h of
        Finite n \<Rightarrow> Inr (concat (map (rowHtml cs invert data res) [0..n - 1]))
      | PosInfinity \<Rightarrow> Inl stringTooLong
      | NegInfinity \<Rightarrow> Inr []
      | NotANumber \<Rightarrow> Inr [])"
  by (simp add: loops_def outerLoop_upto split: number.split)

lemma generation_outcome:
  assumes "originalImage i = Some img" "canvasRef i = Some cv"
  shows "generation i s =
     (case tryBlock i img cv of
        Inl e \<Rightarrow> failedWith (errorMessage e)
      | Inr outputHTML \<Rightarrow> succeededWith outputHTML)"
  using assms
  by (simp add: generation_def generateBinaryArt_def timeoutCallback_def showStatus_def
      failedWith_def succeededWith_def split: sum.split)

lemma tryBlock_outcome:
  "tryBlock i img cv =
     (if \<not> getContext cv then Inl (Error (js ''Could not get canvas context''))
      else case getImageData cv (resolution i) (resolutionHeight (resolution i) (aspectRatio img)) of
             Inl e \<Rightarrow> Inl e
           | Inr data \<Rightarrow>
               (case resolutionHeight (resolution i) (aspectRatio img) of
                  Finite n \<Rightarrow>
                    Inr (concat (map (rowHtml (customCharacters (charInput i)) (invertToggle i)
                                        data (resolution i)) [0..n - 1]))
                | PosInfinity \<Rightarrow> Inl stringTooLong
                | NegInfinity \<Rightarrow> Inr []
                | NotANumber \<Rightarrow> Inr []))"
  by (simp add: tryBlock_def Let_def loops_rows split: sum.split number.split)

lemma height_finite:
  assumes "naturalWidth img \<noteq> 0"
  shows "resolutionHeight res (aspectRatio img)
         = Finite \<lfloor>fmul (fmul (of_int res)
                      (fdiv (of_nat (unat (naturalHeight img))) (of_nat (unat (naturalWidth img)))))
                    (fl (55 / 100))\<rfloor>"
  using assms by (simp add: resolutionHeight_def aspectRatio_def Math_floor_def)

lemma height_infinite:
  "resolutionHeight res (aspectRatio img) = PosInfinity
     \<longleftrightarrow> naturalWidth img = 0 \<and> naturalHeight img \<noteq> 0 \<and> 0 < res"
  by (simp add: resolutionHeight_def aspectRatio_def)

lemma height_examples:
  "resolutionHeight 100 (aspectRatio landscapeImage) = Finite 27"
  "resolutionHeight 1 (aspectRatio wideImage) = Finite 0"
  "resolutionHeight 50 (aspectRatio wideImage) = Finite 0"
  "resolutionHeight (- 100) (aspectRatio landscapeImage) = Finite (- 28)"
  "resolutionHeight 1 (aspectRatio tallImage) = Finite 1"
  "resolutionHeight 180 (aspectRatio portraitImage) = Finite 406"
  "resolutionHeight 50 (aspectRatio squarishImage) = Finite 28"
  by (simp_all add: resolutionHeight_def aspectRatio_def landscapeImage_def wideImage_def
      tallImage_def portraitImage_def squarishImage_def Math_floor_def fl_eval)

lemma exact_examples:
  "spec_targetHeight 100 200 100 = 27"
  "spec_targetHeight 1 1 2 = 1"
  "spec_targetHeight 180 9 37 = 407"
  "spec_targetHeight 50 55 58 = 29"
  by (simp_all add: spec_targetHeight_def)

lemma image_examples:
  "unat (naturalWidth landscapeImage) = 200" "unat (naturalHeight landscapeImage) = 100"
  "unat (naturalWidth tallImage) = 1" "unat (naturalHeight tallImage) = 2"
  "unat (naturalWidth portraitImage) = 9" "unat (naturalHeight portraitImage) = 37"
  "unat (naturalWidth squarishImage) = 55" "unat (naturalHeight squarishImage) = 58"
  by (simp_all add: landscapeImage_def tallImage_def portraitImage_def squarishImage_def)

lemma factor_pos: "0 < fl (55 / 100)"
  by (rule fl_pos) simp

lemma height_nonneg:
  assumes "0 \<le> res"
  shows "0 \<le> \<lfloor>fmul (fmul (of_int res) (fdiv (of_nat H) (of_nat W))) (fl (55 / 100))\<rfloor>"
proof -
  have "0 \<le> fdiv (of_nat H) (of_nat W)" unfolding fdiv_def by (rule fl_nonneg) simp
  then have "0 \<le> fmul (of_int res) (fdiv (of_nat H) (of_nat W))"
    unfolding fmul_def using assms by (intro fl_nonneg mult_nonneg_nonneg) simp_all
  then have "0 \<le> fmul (fmul (of_int res) (fdiv (of_nat H) (of_nat W))) (fl (55 / 100))"
    unfolding fmul_def[of _ "fl (55 / 100)"] using factor_pos
    by (intro fl_nonneg mult_nonneg_nonneg) simp_all
  then show ?thesis by simp
qed

lemma height_nonpos:
  assumes "res \<le> 0 \<or> H = 0"
  shows "\<lfloor>fmul (fmul (of_int res) (fdiv (of_nat H) (of_nat W))) (fl (55 / 100))\<rfloor> \<le> 0"
proof -
  have a: "0 \<le> fdiv (of_nat H) (of_nat W)" unfolding fdiv_def by (rule fl_nonneg) simp
  have "of_int res * fdiv (of_nat H) (of_nat W) \<le> 0"
  proof (cases "H = 0")
    case True
    then show ?thesis by (simp add: fdiv_def)
  next
    case False
    with assms have "(of_int res :: rat) \<le> 0" by simp
    then show ?thesis using a by (rule mult_nonpos_nonneg)
  qed
  then have "fmul (of_int res) (fdiv (of_nat H) (of_nat W)) \<le> 0"
    unfolding fmul_def by (rule fl_nonpos)
  then have "fmul (of_int res) (fdiv (of_nat H) (of_nat W)) * fl (55 / 100) \<le> 0"
    using factor_pos by (intro mult_nonpos_nonneg) simp_all
  then have "fmul (fmul (of_int res) (fdiv (of_nat H) (of_nat W))) (fl (55 / 100)) \<le> 0"
    unfolding fmul_def[of _ "fl (55 / 100)"] by (rule fl_nonpos)
  then show ?thesis by (simp add: floor_le_iff)
qed

lemma run_outcome:
  assumes "originalImage i = Some img" "canvasRef i = Some cv"
  shows "generation i s =
     (if \<not> getContext cv then failedWith (js ''Could not get canvas context'')
      else case getImageData cv (resolution i) (resolutionHeight (resolution i) (aspectRatio img)) of
             Inl e \<Rightarrow> failedWith (errorMessage e)
           | Inr data \<Rightarrow>
               (case resolutionHeight (resolution i) (aspectRatio img) of
                  Finite n \<Rightarrow>
                    succeededWith
                      (concat (map (rowHtml (customCharacters (charInput i)) (invertToggle i)
                                      data (resolution i)) [0..n - 1]))
                | PosInfinity \<Rightarrow> failedWith (errorMessage stringTooLong)
                | NegInfinity \<Rightarrow> succeededWith []
                | NotANumber \<Rightarrow> succeededWith []))"
  unfolding generation_outcome[OF assms] tryBlock_outcome
  by (simp add: errorMessage_def split: sum.split number.split)

lemma request_simps:
  "originalImage (request img cv res) = Some img" "canvasRef (request img cv res) = Some cv"
  "resolution (request img cv res) = res" "charInput (request img cv res) = js ''01''"
  "invertToggle (request img cv res) = False"
  by (simp_all add: request_def)

lemma grey_run:
  \<open>generation (request tallImage greyCanvas 1) published
     = succeededWith (js ''<span style="opacity: 0.502; font-weight: 501;">1</span>'' @ [0x0A])\<close>
proof -
  have g: "getImageData greyCanvas 1 (Finite 1) = Inr [128, 128, 128, 255]" "getContext greyCanvas"
    by (simp_all add: greyCanvas_def)
  have "[0..(1::int) - 1] = [0]" by (simp add: upto.simps)
  then have r: "rowHtml (js ''01'') False [128, 128, 128, 255] 1 0
             = cellHtml (js ''01'') False [128, 128, 128, 255] 0 @ [0x0A]"
    by (simp add: rowHtml_def)
  show ?thesis
    unfolding run_outcome[of "request tallImage greyCanvas 1" tallImage greyCanvas, OF request_simps(1,2)]
      request_simps height_examples
    by (simp add: g customCharacters_default r cell_grey upto.simps)
qed

lemma zero_height_outcome:
  assumes "originalImage i = Some img" "canvasRef i = Some cv"
    "resolutionHeight (resolution i) (aspectRatio img) = Finite 0"
  shows "generation i s =
     (if \<not> getContext cv then failedWith (js ''Could not get canvas context'')
      else case getImageData cv (resolution i) (Finite 0) of
             Inl e \<Rightarrow> failedWith (errorMessage e)
           | Inr data \<Rightarrow> succeededWith [])"
  unfolding run_outcome[OF assms(1,2)] assms(3) by (simp split: sum.split)

lemma lenient_blank:
  "generation (request wideImage lenientCanvas 1) published = succeededWith []"
  using zero_height_outcome[of "request wideImage lenientCanvas 1" wideImage lenientCanvas published]
  by (simp add: request_simps height_examples) (simp add: lenientCanvas_def)

lemma standard_zero_height:
  "generation (request wideImage standardCanvas 50) published
     = failedWith (js ''The source height is 0.'')"
  using zero_height_outcome[of "request wideImage standardCanvas 50" wideImage standardCanvas published]
  by (simp add: request_simps height_examples) (simp add: standardCanvas_def errorMessage_def)

lemma nonpositive_outcome:
  assumes "originalImage i = Some img" "canvasRef i = Some cv"
    "resolution i \<le> 0 \<or> naturalWidth img = 0 \<or> naturalHeight img = 0"
  shows "generation i s =
     (if \<not> getContext cv then failedWith (js ''Could not get canvas context'')
      else case getImageData cv (resolution i) (resolutionHeight (resolution i) (aspectRatio img)) of
             Inl e \<Rightarrow> failedWith (errorMessage e)
           | Inr data \<Rightarrow>
               (if resolutionHeight (resolution i) (aspectRatio img) = PosInfinity
                then failedWith (js ''Invalid string length'')
                else succeededWith []))"
proof (cases "naturalWidth img = 0")
  case True
  then have "\<forall>n. resolutionHeight (resolution i) (aspectRatio img) \<noteq> Finite n"
    by (simp add: resolutionHeight_def aspectRatio_def)
  then show ?thesis unfolding run_outcome[OF assms(1,2)]
    by (auto simp: errorMessage_def stringTooLong_def split: sum.split number.split)
next
  case False
  from assms(3) False have "resolution i \<le> 0 \<or> unat (naturalHeight img) = 0"
    by (auto simp: unat_eq_0)
  from height_nonpos[OF this, of "unat (naturalWidth img)"]
  have "[0..\<lfloor>fmul (fmul (of_int (resolution i))
                 (fdiv (of_nat (unat (naturalHeight img))) (of_nat (unat (naturalWidth img)))))
               (fl (55 / 100))\<rfloor> - 1] = []"
    by simp
  then show ?thesis unfolding run_outcome[OF assms(1,2)] height_finite[OF False]
    by (simp split: sum.split)
qed

lemma negative_width_blank:
  "generation (request landscapeImage standardCanvas (- 100)) published = succeededWith []"
  using nonpositive_outcome[of "request landscapeImage standardCanvas (- 100)" landscapeImage
      standardCanvas published]
  by (simp add: request_simps height_examples) (simp add: standardCanvas_def)

lemma infinite_height_run:
  "generation (request \<lparr>naturalWidth = 0, naturalHeight = 100\<rparr> greyCanvas 50) published
     = failedWith (js ''Invalid string length'')"
  using nonpositive_outcome[of "request \<lparr>naturalWidth = 0, naturalHeight = 100\<rparr> greyCanvas 50"
      "\<lparr>naturalWidth = 0, naturalHeight = 100\<rparr>" greyCanvas published]
  by (simp add: request_simps height_infinite) (simp add: greyCanvas_def)


text \<open>
  C2, as the specification has it, fails. The program evaluates the formula in its own
  arithmetic, rounding the quotient, the product and the factor \<open>0.55\<close>, and where the exact
  value of the formula is a whole number the rounded one can lie just below it. For a
  bitmap of \<open>9 \<times> 37\<close> and a width of 180 the formula gives 407 and the program 406; for a
  bitmap of \<open>55 \<times> 58\<close> and a width of 50 the formula gives 29 and the program 28.
\<close>

theorem target_height_counterexample:
  "resolutionHeight 180 (aspectRatio portraitImage) = Finite 406
   \<and> spec_targetHeight 180 (unat (naturalWidth portraitImage)) (unat (naturalHeight portraitImage))
       = 407
   \<and> resolutionHeight 50 (aspectRatio squarishImage) = Finite 28
   \<and> spec_targetHeight 50 (unat (naturalWidth squarishImage)) (unat (naturalHeight squarishImage))
       = 29"
  by (simp add: height_examples image_examples exact_examples)


text \<open>
  C2, amended. Let \<open>e = floor(targetWidth * (H/W) * 0.55)\<close> be the value of the formula,
  which is the integer quotient of \<open>11 * targetWidth * H\<close> by \<open>20 * W\<close>. For a bitmap of
  width \<open>W > 0\<close> and a width asked for that is not negative, with
  \<open>55 * targetWidth * H < 2 ^ 53\<close> (as it is for every width up to 300), the height \<open>h\<close> the
  program computes is finite and not negative, and it is \<open>e\<close> or \<open>e - 1\<close>; it is \<open>e\<close>
  whenever \<open>20 * W\<close> does not divide \<open>11 * targetWidth * H\<close>, that is, whenever the exact
  value of the formula is not a whole number. \<open>h\<close> is the height the canvas is read at, and
  when the canvas answers with data the document published has exactly \<open>h\<close> rows, each of
  them the cells of one line of the grid followed by a line break. For \<open>targetWidth = 100\<close>,
  \<open>W = 200\<close> and \<open>H = 100\<close> the formula and the program both give 27.
\<close>

theorem target_height:
  assumes "originalImage i = Some img" "canvasRef i = Some cv" "naturalWidth img \<noteq> 0"
    "0 \<le> resolution i"
    "55 * resolution i * int (unat (naturalHeight img)) < 2 ^ 53"
    "e = spec_targetHeight (resolution i) (unat (naturalWidth img)) (unat (naturalHeight img))"
  shows "(\<exists>h. resolutionHeight (resolution i) (aspectRatio img) = Finite h
      \<and> e - 1 \<le> h \<and> h \<le> e \<and> 0 \<le> h
      \<and> (\<not> 20 * int (unat (naturalWidth img))
              dvd 11 * resolution i * int (unat (naturalHeight img)) \<longrightarrow> h = e)
      \<and> (getContext cv \<and> getImageData cv (resolution i) (Finite h) = Inr data \<longrightarrow>
           generation i s =
             succeededWith (concat (map (rowHtml (customCharacters (charInput i))
                     (invertToggle i) data (resolution i)) [0..h - 1]))
           \<and> length (map (rowHtml (customCharacters (charInput i))
                     (invertToggle i) data (resolution i)) [0..h - 1]) = nat h))
    \<and> e = (11 * resolution i * int (unat (naturalHeight img)))
            div (20 * int (unat (naturalWidth img)))
    \<and> resolutionHeight 100 (aspectRatio landscapeImage) = Finite 27
    \<and> spec_targetHeight 100 (unat (naturalWidth landscapeImage))
        (unat (naturalHeight landscapeImage)) = 27"
proof -
  define h where "h = \<lfloor>fmul (fmul (of_int (resolution i))
      (fdiv (of_nat (unat (naturalHeight img))) (of_nat (unat (naturalWidth img)))))
      (fl (55 / 100))\<rfloor>"
  have w: "0 < unat (naturalWidth img)" using assms(3) by (simp add: unat_gt_0)
  note f = height_floor[OF assms(4) w assms(5), folded h_def assms(6)]
  have 1: "resolutionHeight (resolution i) (aspectRatio img) = Finite h"
    unfolding h_def by (rule height_finite[OF assms(3)])
  have 2: "0 \<le> h" unfolding h_def using assms(4) by (rule height_nonneg)
  have 3: "getContext cv \<and> getImageData cv (resolution i) (Finite h) = Inr data \<longrightarrow>
         generation i s =
           succeededWith (concat (map (rowHtml (customCharacters (charInput i))
                   (invertToggle i) data (resolution i)) [0..h - 1]))
         \<and> length (map (rowHtml (customCharacters (charInput i))
                   (invertToggle i) data (resolution i)) [0..h - 1]) = nat h"
    unfolding run_outcome[OF assms(1,2)] 1 by simp
  have 4: "spec_targetHeight 100 (unat (naturalWidth landscapeImage))
        (unat (naturalHeight landscapeImage)) = 27"
    by (simp add: image_examples exact_examples)
  from 1 2 3 4 f height_examples(1) show ?thesis by blast
qed

theorem target_height_witness:
  \<open>originalImage (request tallImage greyCanvas 1) = Some tallImage
   \<and> canvasRef (request tallImage greyCanvas 1) = Some greyCanvas
   \<and> naturalWidth tallImage \<noteq> 0
   \<and> 0 \<le> resolution (request tallImage greyCanvas 1)
   \<and> 55 * resolution (request tallImage greyCanvas 1) * int (unat (naturalHeight tallImage))
       < 2 ^ 53
   \<and> 1 = spec_targetHeight (resolution (request tallImage greyCanvas 1))
            (unat (naturalWidth tallImage)) (unat (naturalHeight tallImage))
   \<and> \<not> 20 * int (unat (naturalWidth tallImage))
         dvd 11 * resolution (request tallImage greyCanvas 1) * int (unat (naturalHeight tallImage))
   \<and> getContext greyCanvas
   \<and> getImageData greyCanvas (resolution (request tallImage greyCanvas 1)) (Finite 1)
        = Inr [128, 128, 128, 255]
   \<and> resolutionHeight (resolution (request tallImage greyCanvas 1)) (aspectRatio tallImage)
        = Finite 1
   \<and> generation (request tallImage greyCanvas 1) published =
         succeededWith (concat (map (rowHtml
            (customCharacters (charInput (request tallImage greyCanvas 1)))
            (invertToggle (request tallImage greyCanvas 1)) [128, 128, 128, 255]
            (resolution (request tallImage greyCanvas 1))) [0..1 - 1]))
   \<and> generation (request tallImage greyCanvas 1) published =
         succeededWith
           (js ''<span style="opacity: 0.502; font-weight: 501;">1</span>'' @ [0x0A])\<close>
proof -
  have w: "naturalWidth tallImage \<noteq> 0" by (simp add: tallImage_def)
  have r: "0 \<le> resolution (request tallImage greyCanvas 1)" by (simp add: request_simps)
  have b: "55 * resolution (request tallImage greyCanvas 1) * int (unat (naturalHeight tallImage))
       < 2 ^ 53"
    by (simp add: request_simps image_examples)
  have e: "1 = spec_targetHeight (resolution (request tallImage greyCanvas 1))
            (unat (naturalWidth tallImage)) (unat (naturalHeight tallImage))"
    by (simp only: request_simps image_examples exact_examples)
  have d: "\<not> 20 * int (unat (naturalWidth tallImage))
         dvd 11 * resolution (request tallImage greyCanvas 1) * int (unat (naturalHeight tallImage))"
    by (simp add: request_simps image_examples)
  have g: "getContext greyCanvas"
    "\<And>h. getImageData greyCanvas (resolution (request tallImage greyCanvas 1)) (Finite h)
        = Inr [128, 128, 128, 255]"
    by (simp_all add: greyCanvas_def)
  from target_height[OF request_simps(1,2) w r b e, of "[128, 128, 128, 255]" published]
  obtain h where h: "resolutionHeight (resolution (request tallImage greyCanvas 1))
        (aspectRatio tallImage) = Finite h"
    "\<not> 20 * int (unat (naturalWidth tallImage))
         dvd 11 * resolution (request tallImage greyCanvas 1) * int (unat (naturalHeight tallImage))
     \<longrightarrow> h = 1"
    "getContext greyCanvas
      \<and> getImageData greyCanvas (resolution (request tallImage greyCanvas 1)) (Finite h)
          = Inr [128, 128, 128, 255] \<longrightarrow>
     generation (request tallImage greyCanvas 1) published =
         succeededWith (concat (map (rowHtml
            (customCharacters (charInput (request tallImage greyCanvas 1)))
            (invertToggle (request tallImage greyCanvas 1)) [128, 128, 128, 255]
            (resolution (request tallImage greyCanvas 1))) [0..h - 1]))"
    by blast
  from h(2) d have h1: "h = 1" by blast
  from h(1,3) g(1) g(2)[of 1] request_simps(1,2)[of tallImage greyCanvas 1] w r b e d grey_run
  show ?thesis unfolding h1 by blast
qed


text \<open>
  C3, as the specification has it, fails: with a bitmap of \<open>1000 \<times> 1\<close> and a width of 1 the
  height is 0, and on a canvas that answers a read of an empty rectangle with an empty array
  the run succeeds and publishes the empty document. On a canvas of the HTML standard the
  same run fails, and what it reports is the exception of the canvas.
\<close>

theorem zero_height_counterexample:
  "resolutionHeight (resolution (request wideImage lenientCanvas 1)) (aspectRatio wideImage)
     = Finite 0
   \<and> generation (request wideImage lenientCanvas 1) published =
       \<lparr>artOutputHtml = [], isGenerated = True, isGenerating = False,
        statusMessage = Some (js ''Art generated! You can now download the file.'', success)\<rparr>
   \<and> generation (request wideImage standardCanvas 1) published =
       \<lparr>artOutputHtml = analyzing, isGenerated = False, isGenerating = False,
        statusMessage = Some (js ''Failed to generate art: The source height is 0.'', error)\<rparr>"
proof -
  have "generation (request wideImage standardCanvas 1) published
     = failedWith (js ''The source height is 0.'')"
    using zero_height_outcome[of "request wideImage standardCanvas 1" wideImage standardCanvas
        published]
    by (simp add: request_simps height_examples) (simp add: standardCanvas_def errorMessage_def)
  then show ?thesis
    using lenient_blank
    by (simp add: request_simps height_examples succeededWith_def failedWith_def js_def)
qed


text \<open>
  C3, amended. When the height computed is 0 the code checks nothing itself. The run fails,
  with \<^verbatim>\<open>Failed to generate art:\<close> and the message of the exception as the status and the
  progress text left in place of a document, when the canvas has no 2d context or throws at
  the read of the pixels, as a canvas of the HTML standard does for a height of 0. When the
  canvas answers with data, the run succeeds and publishes the empty document.
\<close>

theorem zero_height_run:
  assumes "originalImage i = Some img" "canvasRef i = Some cv"
    "resolutionHeight (resolution i) (aspectRatio img) = Finite 0"
  shows "generation i s =
     (if \<not> getContext cv then failedWith (js ''Could not get canvas context'')
      else case getImageData cv (resolution i) (Finite 0) of
             Inl e \<Rightarrow> failedWith (errorMessage e)
           | Inr data \<Rightarrow> succeededWith [])"
  using assms by (rule zero_height_outcome)

theorem zero_height_run_witness:
  "originalImage (request wideImage standardCanvas 50) = Some wideImage
   \<and> canvasRef (request wideImage standardCanvas 50) = Some standardCanvas
   \<and> resolutionHeight (resolution (request wideImage standardCanvas 50)) (aspectRatio wideImage)
       = Finite 0
   \<and> generation (request wideImage standardCanvas 50) published =
       \<lparr>artOutputHtml = analyzing, isGenerated = False, isGenerating = False,
        statusMessage = Some (js ''Failed to generate art: The source height is 0.'', error)\<rparr>"
proof -
  have h: "resolutionHeight (resolution (request wideImage standardCanvas 50))
             (aspectRatio wideImage) = Finite 0"
    by (simp add: request_simps height_examples)
  have c: "getContext standardCanvas"
    "getImageData standardCanvas (resolution (request wideImage standardCanvas 50)) (Finite 0)
       = Inl (Error (js ''The source height is 0.''))"
    by (simp_all add: standardCanvas_def request_simps)
  have "generation (request wideImage standardCanvas 50) published =
       failedWith (js ''The source height is 0.'')"
    unfolding zero_height_run[OF request_simps(1,2) h] by (simp add: c errorMessage_def)
  then show ?thesis using h by (simp add: request_simps failedWith_def js_def)
qed


text \<open>
  C4, as the specification has it, fails: the document on display is replaced by the
  progress text as soon as a run starts, and a run that fails leaves the progress text there;
  the document of the earlier run is gone.
\<close>

theorem publication_counterexample:
  "artOutputHtml published \<noteq> analyzing
   \<and> artOutputHtml (fst (generateBinaryArt (request tallImage greyCanvas 1) published)) = analyzing
   \<and> generation (request wideImage standardCanvas 50) published =
       \<lparr>artOutputHtml = analyzing, isGenerated = False, isGenerating = False,
        statusMessage = Some (js ''Failed to generate art: The source height is 0.'', error)\<rparr>"
proof -
  have "artOutputHtml published \<noteq> analyzing"
    by (simp add: published_def analyzing_def js_def)
  moreover have
    "artOutputHtml (fst (generateBinaryArt (request tallImage greyCanvas 1) published)) = analyzing"
    by (simp add: generateBinaryArt_def request_def showStatus_def)
  ultimately show ?thesis
    using standard_zero_height by (simp add: failedWith_def js_def)
qed


text \<open>
  C4, amended. A run that has an image and a canvas replaces the document on display by the
  progress text at once and marks it as not generated. If the run fails, the progress text
  stays and the failure is the status: no part of a new document is ever shown. If the run
  succeeds, the whole new document, every row of the grid, is put on display in one step and
  marked as generated.
\<close>

theorem publication:
  assumes "originalImage i = Some img" "canvasRef i = Some cv"
  shows "artOutputHtml (fst (generateBinaryArt i s)) = analyzing
    \<and> isGenerated (fst (generateBinaryArt i s)) = False
    \<and> generation i s =
     (if \<not> getContext cv then failedWith (js ''Could not get canvas context'')
      else case getImageData cv (resolution i) (resolutionHeight (resolution i) (aspectRatio img)) of
             Inl e \<Rightarrow> failedWith (errorMessage e)
           | Inr data \<Rightarrow>
               (case resolutionHeight (resolution i) (aspectRatio img) of
                  Finite n \<Rightarrow>
                    succeededWith
                      (concat (map (rowHtml (customCharacters (charInput i)) (invertToggle i)
                                      data (resolution i)) [0..n - 1]))
                | PosInfinity \<Rightarrow> failedWith (errorMessage stringTooLong)
                | NegInfinity \<Rightarrow> succeededWith []
                | NotANumber \<Rightarrow> succeededWith []))
    \<and> artOutputHtml (failedWith m) = analyzing \<and> isGenerated (failedWith m) = False
    \<and> artOutputHtml (succeededWith d) = d \<and> isGenerated (succeededWith d) = True"
  using assms run_outcome[OF assms, of s]
  by (simp add: generateBinaryArt_def showStatus_def failedWith_def succeededWith_def)

theorem publication_witness:
  \<open>originalImage (request tallImage greyCanvas 1) = Some tallImage
   \<and> canvasRef (request tallImage greyCanvas 1) = Some greyCanvas
   \<and> artOutputHtml (fst (generateBinaryArt (request tallImage greyCanvas 1) published)) = analyzing
   \<and> isGenerated (fst (generateBinaryArt (request tallImage greyCanvas 1) published)) = False
   \<and> generation (request tallImage greyCanvas 1) published =
         succeededWith
           (js ''<span style="opacity: 0.502; font-weight: 501;">1</span>'' @ [0x0A])\<close>
  using publication[OF request_simps(1,2), of tallImage greyCanvas 1 published] grey_run
  by (simp add: request_simps)


text \<open>
  C8, as the specification has it, fails: with a width of \<open>- 100\<close> on a canvas of the HTML
  standard the run succeeds and publishes the empty document.
\<close>

theorem dimensions_counterexample:
  "resolution (request landscapeImage standardCanvas (- 100)) \<le> 0
   \<and> generation (request landscapeImage standardCanvas (- 100)) published =
       \<lparr>artOutputHtml = [], isGenerated = True, isGenerating = False,
        statusMessage = Some (js ''Art generated! You can now download the file.'', success)\<rparr>"
  using negative_width_blank by (simp add: request_simps succeededWith_def)


text \<open>
  C8, amended. The code does not check the width asked for or the dimensions of the bitmap.
  With a width of 0 or less, or a bitmap of width or height 0, the run goes to the canvas with
  these numbers; it fails when the canvas has no 2d context or throws, and then reports the
  message of that exception. When the canvas answers with data there are two cases. If the
  height is \<open>+ Infinity\<close>, as it is exactly for a bitmap of width 0 and a height other than 0
  with a width asked for above 0, the loop grows the document until the engine refuses a
  longer string, and the run fails with the message of that exception,
  \<^verbatim>\<open>Failed to generate art: Invalid string length\<close>. In every other case the run publishes
  the empty document as a success.
\<close>

theorem dimensions_unchecked:
  assumes "originalImage i = Some img" "canvasRef i = Some cv"
    "resolution i \<le> 0 \<or> naturalWidth img = 0 \<or> naturalHeight img = 0"
  shows "generation i s =
     (if \<not> getContext cv then failedWith (js ''Could not get canvas context'')
      else case getImageData cv (resolution i) (resolutionHeight (resolution i) (aspectRatio img)) of
             Inl e \<Rightarrow> failedWith (errorMessage e)
           | Inr data \<Rightarrow>
               (if resolutionHeight (resolution i) (aspectRatio img) = PosInfinity
                then failedWith (js ''Invalid string length'')
                else succeededWith []))
    \<and> (resolutionHeight (resolution i) (aspectRatio img) = PosInfinity
         \<longleftrightarrow> naturalWidth img = 0 \<and> naturalHeight img \<noteq> 0 \<and> 0 < resolution i)"
  using nonpositive_outcome[OF assms] height_infinite by blast

theorem dimensions_unchecked_witness:
  "originalImage (request landscapeImage standardCanvas 0) = Some landscapeImage
   \<and> canvasRef (request landscapeImage standardCanvas 0) = Some standardCanvas
   \<and> resolution (request landscapeImage standardCanvas 0) \<le> 0
   \<and> generation (request landscapeImage standardCanvas 0) published =
       \<lparr>artOutputHtml = analyzing, isGenerated = False, isGenerating = False,
        statusMessage = Some (js ''Failed to generate art: The source width is 0.'', error)\<rparr>"
proof -
  have r: "resolution (request landscapeImage standardCanvas 0) \<le> 0
      \<or> naturalWidth landscapeImage = 0 \<or> naturalHeight landscapeImage = 0"
    by (simp add: request_simps)
  have c: "getContext standardCanvas"
    "\<And>n. getImageData standardCanvas 0 (Finite n) = Inl (Error (js ''The source width is 0.''))"
    by (simp_all add: standardCanvas_def)
  have w: "naturalWidth landscapeImage \<noteq> 0" by (simp add: landscapeImage_def)
  from dimensions_unchecked[OF request_simps(1,2) r, of published]
  have "generation (request landscapeImage standardCanvas 0) published =
       failedWith (js ''The source width is 0.'')"
    unfolding request_simps height_finite[OF w]
    by (simp add: c errorMessage_def)
  then show ?thesis by (simp add: request_simps failedWith_def js_def)
qed


end
